theory Spec2Isabelle
  imports Main "HOL-Library.Multiset"
begin

text \<open>
  A model of the proxy scraper and checker: the address normalizer and validity check of
  the scraper, the deduplicator, the configuration defaults, and the checker engine with
  its two checking policies, its counters and its result channel.

  Go strings are byte sequences: a \<^typ>\<open>string\<close> here is the list of the bytes of the Go
  string. A \<^verbatim>\<open>time.Duration\<close> is a number of nanoseconds, an \<^typ>\<open>int\<close>; the
  counters of the checker are Go \<^verbatim>\<open>int\<close>s that only count list elements, modelled as
  \<^typ>\<open>nat\<close>.
\<close>


section \<open>Deduplicator (utils.go)\<close>

text \<open>
  \<^verbatim>\<open>RemoveDuplicates\<close> walks the input once. \<^verbatim>\<open>seen\<close> is a Go
  \<^verbatim>\<open>map[string]struct{}\<close> used as a set, \<^verbatim>\<open>result\<close> grows by \<^verbatim>\<open>append\<close>.
  The loop is the recursive function below; its two accumulators are the two local
  variables of the Go function.
\<close>

fun RemoveDuplicates_loop :: "string list \<Rightarrow> string set \<Rightarrow> string list \<Rightarrow> string list" where
  "RemoveDuplicates_loop [] seen result = result"
| "RemoveDuplicates_loop (proxy # rest) seen result =
     (if proxy \<notin> seen
      then RemoveDuplicates_loop rest (insert proxy seen) (result @ [proxy])
      else RemoveDuplicates_loop rest seen result)"

definition RemoveDuplicates :: "string list \<Rightarrow> string list" where
  "RemoveDuplicates proxies = RemoveDuplicates_loop proxies {} []"

text \<open>The position of the first occurrence of \<open>x\<close> in \<open>xs\<close> (\<open>length xs\<close> if there is none).\<close>

definition first_index :: "'a list \<Rightarrow> 'a \<Rightarrow> nat" where
  "first_index xs x = length (takeWhile (\<lambda>y. y \<noteq> x) xs)"

text \<open>What the loop appends to \<open>result\<close>, as a function of the remaining input and \<open>seen\<close>.\<close>

fun fresh :: "string list \<Rightarrow> string set \<Rightarrow> string list" where
  "fresh [] seen = []"
| "fresh (x # xs) seen = (if x \<in> seen then fresh xs seen else x # fresh xs (insert x seen))"

section \<open>Strings (package strings)\<close>

definition HasPrefix :: "string \<Rightarrow> string \<Rightarrow> bool" where
  "HasPrefix s prefix = (take (length prefix) s = prefix)"

definition TrimPrefix :: "string \<Rightarrow> string \<Rightarrow> string" where
  "TrimPrefix s prefix = (if HasPrefix s prefix then drop (length prefix) s else s)"

text \<open>
  \<^verbatim>\<open>strings.Split(s, sep)\<close> for a separator of one byte: the pieces between the
  separators, one more than there are separators (so \<^verbatim>\<open>Split("", ":")\<close> is one
  empty piece). A byte that is not the separator goes to the front of the first piece of
  the rest; the rest always has a first piece (lemma \<open>Split_nonempty\<close>).
\<close>

fun Split :: "string \<Rightarrow> char \<Rightarrow> string list" where
  "Split [] sep = [[]]"
| "Split (c # cs) sep =
     (if c = sep then [] # Split cs sep
      else (case Split cs sep of [] \<Rightarrow> [[c]] | piece # pieces \<Rightarrow> (c # piece) # pieces))"

fun Contains :: "string \<Rightarrow> string \<Rightarrow> bool" where
  "Contains [] substr = (substr = [])"
| "Contains (c # cs) substr = (HasPrefix (c # cs) substr \<or> Contains cs substr)"

section \<open>Regular expressions (package regexp)\<close>

text \<open>
  The three patterns of \<^verbatim>\<open>normalizeProxy\<close> are sequences of two kinds of atoms:
  a literal byte, and a greedy repetition \<^verbatim>\<open>\d{lo,hi}\<close> of ASCII digits
  (\<^verbatim>\<open>\d+\<close> is \<^verbatim>\<open>\d{1,}\<close>, no upper bound). Package regexp returns the
  leftmost match, and among the matches that start there the one a backtracking search
  finds first; \<open>match_here\<close> is that search at one starting position (a greedy
  repetition tries the longest run first), \<open>find_first\<close> tries the starting positions
  from the left. A match is returned as the list of the pieces its atoms matched.
\<close>

definition is_digit :: "char \<Rightarrow> bool" where
  "is_digit c = ((48::nat) \<le> of_char c \<and> of_char c \<le> (57::nat))"

datatype atom = Digits nat "nat option" | Lit char

fun first_some :: "('a \<Rightarrow> 'b option) \<Rightarrow> 'a list \<Rightarrow> 'b option" where
  "first_some f [] = None"
| "first_some f (x # xs) = (case f x of Some y \<Rightarrow> Some y | None \<Rightarrow> first_some f xs)"

fun match_here :: "atom list \<Rightarrow> string \<Rightarrow> string list option" where
  "match_here [] s = Some []"
| "match_here (Lit c # p) s =
     (case s of
        [] \<Rightarrow> None
      | x # xs \<Rightarrow> if x = c then map_option ((#) [x]) (match_here p xs) else None)"
| "match_here (Digits lo hi # p) s =
     (let run = length (takeWhile is_digit s);
          most = (case hi of None \<Rightarrow> run | Some h \<Rightarrow> min run h)
      in first_some (\<lambda>k. map_option ((#) (take k s)) (match_here p (drop k s)))
           (rev [lo ..< Suc most]))"

fun find_first :: "atom list \<Rightarrow> string \<Rightarrow> string list option" where
  "find_first p [] = match_here p []"
| "find_first p (c # cs) =
     (case match_here p (c # cs) of Some ps \<Rightarrow> Some ps | None \<Rightarrow> find_first p cs)"

text \<open>\<^verbatim>\<open>\d{1,3}\.\d{1,3}\.\d{1,3}\.\d{1,3}\<close>\<close>

definition ipRe :: "atom list" where
  "ipRe = [Digits 1 (Some 3), Lit (CHR ''.''), Digits 1 (Some 3), Lit (CHR ''.''),
           Digits 1 (Some 3), Lit (CHR ''.''), Digits 1 (Some 3)]"

text \<open>\<^verbatim>\<open>(\d{1,3}\.\d{1,3}\.\d{1,3}\.\d{1,3}):(\d+)\<close>: group 1 is the first seven atoms,
  group 2 the last one.\<close>

definition re :: "atom list" where
  "re = ipRe @ [Lit (CHR '':''), Digits 1 None]"

text \<open>\<^verbatim>\<open>\d{1,5}\<close>\<close>

definition portRe :: "atom list" where
  "portRe = [Digits 1 (Some 5)]"

text \<open>\<^verbatim>\<open>FindString\<close> returns the matched text, the empty string when there is no
  match.\<close>

definition FindString :: "atom list \<Rightarrow> string \<Rightarrow> string" where
  "FindString p s = (case find_first p s of None \<Rightarrow> [] | Some ps \<Rightarrow> concat ps)"

text \<open>\<^verbatim>\<open>re.FindStringSubmatch\<close>: \<open>None\<close> is Go's \<^verbatim>\<open>nil\<close>; otherwise the two
  groups \<^verbatim>\<open>matches[1]\<close> and \<^verbatim>\<open>matches[2]\<close>.\<close>

definition FindStringSubmatch :: "string \<Rightarrow> (string \<times> string) option" where
  "FindStringSubmatch s =
     map_option (\<lambda>ps. (concat (take 7 ps), concat (drop 8 ps))) (find_first re s)"

section \<open>JSON decoding (package encoding/json)\<close>

text \<open>
  \<^verbatim>\<open>json.Unmarshal\<close> first checks that the whole input is one JSON value (the
  scanner), then decodes the value into the target. The model parses the input into a
  tree and decodes the tree. String literals are unquoted as Go does: escapes are decoded,
  \<^verbatim>\<open>\u\<close> escapes become UTF-8 (a surrogate pair one rune, a lone surrogate U+FFFD),
  and a byte sequence that is not valid UTF-8 becomes U+FFFD byte by byte.
\<close>

datatype json = JNull | JBool bool | JNumber string | JString string
  | JArray "json list" | JObject "(string \<times> json) list"

definition is_space :: "char \<Rightarrow> bool" where
  "is_space c = (c = CHR '' '' \<or> c = CHR 0x09 \<or> c = CHR 0x0D \<or> c = CHR 0x0A)"

definition skip_space :: "string \<Rightarrow> string" where
  "skip_space s = dropWhile is_space s"

definition is_hex :: "char \<Rightarrow> bool" where
  "is_hex c = (is_digit c \<or> c \<in> set ''abcdefABCDEF'')"

definition hex_val :: "char \<Rightarrow> nat" where
  "hex_val c = (if is_digit c then of_char c - 48
                else if (97::nat) \<le> of_char c then of_char c - 87 else of_char c - 55)"

definition getu4 :: "string \<Rightarrow> nat" where
  "getu4 hs = foldl (\<lambda>r c. r * 16 + hex_val c) 0 hs"

text \<open>The scanner inside a string literal, after the opening quote: the bytes of the literal
  up to the closing quote, and the input after it. A control byte, an unknown escape or the
  end of the input is a syntax error.\<close>

fun scan_string :: "string \<Rightarrow> (string \<times> string) option" where
  "scan_string [] = None"
| "scan_string (c # cs) =
     (if c = CHR 0x22 then Some ([], cs)
      else if c = CHR 0x5C then
        (case cs of
           [] \<Rightarrow> None
         | e # cs' \<Rightarrow>
            if e \<in> set [CHR ''b'', CHR ''f'', CHR ''n'', CHR ''r'', CHR ''t'',
                         CHR 0x5C, CHR ''/'', CHR 0x22]
            then map_option (\<lambda>(l, r). (c # e # l, r)) (scan_string cs')
            else if e = CHR ''u'' \<and> 4 \<le> length cs' \<and> list_all is_hex (take 4 cs')
            then map_option (\<lambda>(l, r). (c # e # take 4 cs' @ l, r)) (scan_string (drop 4 cs'))
            else None)
      else if of_char c < (0x20::nat) then None
      else map_option (\<lambda>(l, r). (c # l, r)) (scan_string cs))"

definition utf8_encode :: "nat \<Rightarrow> string" where
  "utf8_encode r =
     (if r < 0x80 then [char_of r]
      else if r < 0x800 then [char_of (0xC0 + r div 64), char_of (0x80 + r mod 64)]
      else if r < 0x10000 then
        [char_of (0xE0 + r div 4096), char_of (0x80 + r div 64 mod 64), char_of (0x80 + r mod 64)]
      else [char_of (0xF0 + r div 262144), char_of (0x80 + r div 4096 mod 64),
            char_of (0x80 + r div 64 mod 64), char_of (0x80 + r mod 64)])"

text \<open>U+FFFD in UTF-8.\<close>

definition RuneError :: string where
  "RuneError = [CHR 0xEF, CHR 0xBF, CHR 0xBD]"

definition in_range :: "nat \<Rightarrow> nat \<Rightarrow> char \<Rightarrow> bool" where
  "in_range lo hi c = (lo \<le> of_char c \<and> of_char c \<le> hi)"

text \<open>The width of the UTF-8 sequence at the head of the bytes (\<^verbatim>\<open>utf8.DecodeRune\<close>),
  0 when there is no valid one.\<close>

definition utf8_width :: "string \<Rightarrow> nat" where
  "utf8_width s =
     (case s of
        [] \<Rightarrow> 0
      | b0 # s1 \<Rightarrow>
         if in_range 0xC2 0xDF b0 then
           (case s1 of b1 # _ \<Rightarrow> if in_range 0x80 0xBF b1 then 2 else 0 | _ \<Rightarrow> 0)
         else if in_range 0xE0 0xEF b0 then
           (case s1 of
              b1 # b2 # _ \<Rightarrow>
                if in_range (if b0 = CHR 0xE0 then 0xA0 else 0x80)
                            (if b0 = CHR 0xED then 0x9F else 0xBF) b1
                   \<and> in_range 0x80 0xBF b2 then 3 else 0
            | _ \<Rightarrow> 0)
         else if in_range 0xF0 0xF4 b0 then
           (case s1 of
              b1 # b2 # b3 # _ \<Rightarrow>
                if in_range (if b0 = CHR 0xF0 then 0x90 else 0x80)
                            (if b0 = CHR 0xF4 then 0x8F else 0xBF) b1
                   \<and> in_range 0x80 0xBF b2 \<and> in_range 0x80 0xBF b3 then 4 else 0
            | _ \<Rightarrow> 0)
         else 0)"

definition unescape :: "char \<Rightarrow> char" where
  "unescape e =
     (if e = CHR ''b'' then CHR 0x08 else if e = CHR ''f'' then CHR 0x0C
      else if e = CHR ''n'' then CHR 0x0A else if e = CHR ''r'' then CHR 0x0D
      else if e = CHR ''t'' then CHR 0x09 else e)"

text \<open>The rune of the surrogate pair whose first half is \<open>r\<close>, when the input goes on with
  the escape of a second half.\<close>

definition surrogate_pair :: "nat \<Rightarrow> string \<Rightarrow> nat option" where
  "surrogate_pair r s =
     (if 6 \<le> length s \<and> take 2 s = [CHR 0x5C, CHR ''u''] \<and> list_all is_hex (take 4 (drop 2 s))
      then (let r2 = getu4 (take 4 (drop 2 s))
            in if r < 0xDC00 \<and> 0xDC00 \<le> r2 \<and> r2 < 0xE000
               then Some ((r - 0xD800) * 1024 + (r2 - 0xDC00) + 0x10000) else None)
      else None)"

function unquote :: "string \<Rightarrow> string" where
  "unquote [] = []"
| "unquote (c # cs) =
     (if c = CHR 0x5C then
        (case cs of
           [] \<Rightarrow> []
         | e # cs' \<Rightarrow>
            if e = CHR ''u'' then
              (let r = getu4 (take 4 cs'); rest = drop 4 cs'
               in if 0xD800 \<le> r \<and> r < 0xE000 then
                    (case surrogate_pair r rest of
                       Some dec \<Rightarrow> utf8_encode dec @ unquote (drop 6 rest)
                     | None \<Rightarrow> RuneError @ unquote rest)
                  else utf8_encode r @ unquote rest)
            else unescape e # unquote cs')
      else if of_char c < (0x80::nat) then c # unquote cs
      else (let n = utf8_width (c # cs)
            in if n = 0 then RuneError @ unquote cs
               else take n (c # cs) @ unquote (drop n (c # cs))))"
  by pat_completeness auto
termination
  by (relation "measure length") auto

text \<open>The scanner on a number: the longest prefix of the input that a JSON number can be.\<close>

definition scan_digits :: "string \<Rightarrow> (string \<times> string) option" where
  "scan_digits s =
     (let ds = takeWhile is_digit s
      in if ds = [] then None else Some (ds, dropWhile is_digit s))"

definition scan_int :: "string \<Rightarrow> (string \<times> string) option" where
  "scan_int s =
     (case s of
        [] \<Rightarrow> None
      | c # cs \<Rightarrow> if c = CHR ''0'' then Some ([c], cs) else scan_digits s)"

definition scan_frac :: "string \<Rightarrow> (string \<times> string) option" where
  "scan_frac s =
     (case s of
        [] \<Rightarrow> Some ([], s)
      | c # cs \<Rightarrow>
         if c = CHR ''.'' then map_option (\<lambda>(ds, r). (c # ds, r)) (scan_digits cs)
         else Some ([], s))"

definition scan_exp :: "string \<Rightarrow> (string \<times> string) option" where
  "scan_exp s =
     (case s of
        [] \<Rightarrow> Some ([], s)
      | c # cs \<Rightarrow>
         if c = CHR ''e'' \<or> c = CHR ''E'' then
           (case cs of
              [] \<Rightarrow> None
            | g # cs' \<Rightarrow>
               if g = CHR ''+'' \<or> g = CHR ''-''
               then map_option (\<lambda>(ds, r). (c # g # ds, r)) (scan_digits cs')
               else map_option (\<lambda>(ds, r). (c # ds, r)) (scan_digits cs))
         else Some ([], s))"

definition scan_number :: "string \<Rightarrow> (string \<times> string) option" where
  "scan_number s =
     (let (sign, s1) = (case s of
                          [] \<Rightarrow> ([], s)
                        | c # cs \<Rightarrow> if c = CHR ''-'' then ([c], cs) else ([], s))
      in case scan_int s1 of
           None \<Rightarrow> None
         | Some (i, s2) \<Rightarrow>
            (case scan_frac s2 of
               None \<Rightarrow> None
             | Some (f, s3) \<Rightarrow>
                (case scan_exp s3 of
                   None \<Rightarrow> None
                 | Some (e, s4) \<Rightarrow> Some (sign @ i @ f @ e, s4))))"

text \<open>The scanner gives up on input nested deeper than this.\<close>

definition maxNestingDepth :: nat where
  "maxNestingDepth = 10000"

text \<open>
  The parser: \<open>parse_value d s\<close> reads one value at the head of \<open>s\<close>, inside \<open>d\<close>
  enclosing arrays and objects, and returns it with the rest of the input;
  \<open>parse_elements\<close> reads the elements of a non-empty array up to its closing bracket,
  \<open>parse_members\<close> the members of a non-empty object up to its closing brace. Both loops go
  on with the input left by the value they have read, which is shorter; the tests
  \<open>length r < length s\<close> say so in the definition, and never fail
  (lemma \<open>parse_shorter\<close>).
\<close>

lemma length_skip_space: "length (skip_space s) \<le> length s"
  by (simp add: skip_space_def length_dropWhile_le)

lemma skip_space_Cons_length: "skip_space s = c # cs \<Longrightarrow> length cs < length s"
  using length_skip_space [of s] by simp

function parse_value :: "nat \<Rightarrow> string \<Rightarrow> (json \<times> string) option"
  and parse_elements :: "nat \<Rightarrow> string \<Rightarrow> (json list \<times> string) option"
  and parse_members :: "nat \<Rightarrow> string \<Rightarrow> ((string \<times> json) list \<times> string) option"
where
  "parse_value d s =
     (case s of
        [] \<Rightarrow> None
      | c # cs \<Rightarrow>
         if c = CHR ''{'' then
           (if maxNestingDepth \<le> d then None
            else (case skip_space cs of
                    [] \<Rightarrow> None
                  | c' # cs' \<Rightarrow>
                     if c' = CHR ''}'' then Some (JObject [], cs')
                     else map_option (\<lambda>(ms, r). (JObject ms, r))
                            (parse_members (Suc d) (c' # cs'))))
         else if c = CHR ''['' then
           (if maxNestingDepth \<le> d then None
            else (case skip_space cs of
                    [] \<Rightarrow> None
                  | c' # cs' \<Rightarrow>
                     if c' = CHR '']'' then Some (JArray [], cs')
                     else map_option (\<lambda>(vs, r). (JArray vs, r))
                            (parse_elements (Suc d) (c' # cs'))))
         else if c = CHR 0x22 then
           map_option (\<lambda>(l, r). (JString (unquote l), r)) (scan_string cs)
         else if take 4 s = ''true'' then Some (JBool True, drop 4 s)
         else if take 5 s = ''false'' then Some (JBool False, drop 5 s)
         else if take 4 s = ''null'' then Some (JNull, drop 4 s)
         else map_option (\<lambda>(n, r). (JNumber n, r)) (scan_number s))"
| "parse_elements d s =
     (case parse_value d s of
        None \<Rightarrow> None
      | Some (v, r) \<Rightarrow>
         if length r < length s then
           (case skip_space r of
              [] \<Rightarrow> None
            | c # cs \<Rightarrow>
               if c = CHR '']'' then Some ([v], cs)
               else if c = CHR '','' then
                 map_option (\<lambda>(vs, r'). (v # vs, r')) (parse_elements d (skip_space cs))
               else None)
         else None)"
| "parse_members d s =
     (case s of
        [] \<Rightarrow> None
      | c # cs \<Rightarrow>
         if c = CHR 0x22 then
           (case scan_string cs of
              None \<Rightarrow> None
            | Some (l, r) \<Rightarrow>
               (case skip_space r of
                  [] \<Rightarrow> None
                | c1 # r1 \<Rightarrow>
                   if c1 = CHR '':'' \<and> length r1 < length s then
                     (case parse_value d (skip_space r1) of
                        None \<Rightarrow> None
                      | Some (v, r2) \<Rightarrow>
                         if length r2 < length s then
                           (case skip_space r2 of
                              [] \<Rightarrow> None
                            | c2 # r3 \<Rightarrow>
                               if c2 = CHR ''}'' then Some ([(unquote l, v)], r3)
                               else if c2 = CHR '','' then
                                 map_option (\<lambda>(ms, r'). ((unquote l, v) # ms, r'))
                                   (parse_members d (skip_space r3))
                               else None)
                         else None)
                   else None))
         else None)"
  by pat_completeness auto

termination
  apply (relation "measure (\<lambda>x. case x of
            Inl (d, s) \<Rightarrow> 2 * length s
          | Inr (Inl (d, s)) \<Rightarrow> 2 * length s + 1
          | Inr (Inr (d, s)) \<Rightarrow> 2 * length s + 1)")
       apply (auto dest!: skip_space_Cons_length simp: le_imp_less_Suc)
  subgoal for d s a b r using length_skip_space [of r] by linarith
  subgoal for cs a b r using length_skip_space [of r] by linarith
  subgoal for d cs a b r1 v r2 r3 using length_skip_space [of r3] by linarith
  done

declare parse_value.simps [simp del] parse_elements.simps [simp del] parse_members.simps [simp del]

text \<open>The whole input is one value, with white space around it.\<close>

definition parse_json :: "string \<Rightarrow> json option" where
  "parse_json s =
     (case parse_value 0 (skip_space s) of
        None \<Rightarrow> None
      | Some (v, r) \<Rightarrow> if skip_space r = [] then Some v else None)"

text \<open>
  Decoding into a struct: a key selects the field of that name, or else the field whose
  name is the same after case folding. \<^verbatim>\<open>foldName\<close> upper-cases ASCII letters and
  maps every other rune to the smallest rune of its case orbit; the only such runes that
  reach ASCII are U+017F (to \<open>S\<close>) and U+212A (to \<open>K\<close>), the others are left as they
  are here, which makes no difference when the result is compared with a folded ASCII
  field name.
\<close>

function foldName :: "string \<Rightarrow> string" where
  "foldName [] = []"
| "foldName (c # cs) =
     (if c = CHR 0xC5 \<and> take 1 cs = [CHR 0xBF] then CHR ''S'' # foldName (drop 1 cs)
      else if c = CHR 0xE2 \<and> take 2 cs = [CHR 0x84, CHR 0xAA] then CHR ''K'' # foldName (drop 2 cs)
      else (if (97::nat) \<le> of_char c \<and> of_char c \<le> (122::nat)
            then char_of (of_char c - (32::nat)) else c) # foldName cs)"
  by pat_completeness auto
termination
  by (relation "measure length") auto

definition lookup_field :: "string list \<Rightarrow> string \<Rightarrow> string option" where
  "lookup_field names key =
     (if key \<in> set names then Some key
      else find (\<lambda>name. foldName name = foldName key) names)"

fun fold_option :: "('a \<Rightarrow> 'b \<Rightarrow> 'a option) \<Rightarrow> 'b list \<Rightarrow> 'a \<Rightarrow> 'a option" where
  "fold_option f [] a = Some a"
| "fold_option f (x # xs) a = (case f a x of None \<Rightarrow> None | Some a' \<Rightarrow> fold_option f xs a')"

text \<open>
  A JSON value stored into a string that holds \<open>old\<close>: a string is stored, \<^verbatim>\<open>null\<close>
  leaves the field as it is, anything else is an \<^verbatim>\<open>UnmarshalTypeError\<close>. Go goes on
  decoding after a type error and returns the error at the end; the callers here only
  test \<^verbatim>\<open>err == nil\<close>, so the model stops at the error.
\<close>

definition literal_string :: "json \<Rightarrow> string \<Rightarrow> string option" where
  "literal_string v old =
     (case v of JString s \<Rightarrow> Some s | JNull \<Rightarrow> Some old | _ \<Rightarrow> None)"

text \<open>
  A JSON value decoded into a struct all of whose fields are strings; \<open>names\<close> are the
  JSON names of the fields, and the struct is the function from these names to the
  fields' values. A key that selects no field is skipped with its value, whatever it is.
\<close>

definition decode_strings :: "string list \<Rightarrow> json \<Rightarrow> (string \<Rightarrow> string) \<Rightarrow> (string \<Rightarrow> string) option" where
  "decode_strings names v fs =
     (case v of
        JObject ms \<Rightarrow>
          fold_option (\<lambda>fs (k, x).
              case lookup_field names k of
                None \<Rightarrow> Some fs
              | Some f \<Rightarrow> map_option (\<lambda>y. fs(f := y)) (literal_string x (fs f))) ms fs
      | JNull \<Rightarrow> Some fs
      | _ \<Rightarrow> None)"

subsection \<open>The target of the normalizer: ProxyData\<close>

record ProxyData_item =
  IP :: string
  Port :: string
  ProxyPort :: string
  PortNum :: string
  PortNumber :: string

record ProxyData =
  Data :: "ProxyData_item list"

definition item_fields :: "string list" where
  "item_fields = [''ip'', ''port'', ''proxy_port'', ''port_num'', ''port_number'']"

definition item_of :: "(string \<Rightarrow> string) \<Rightarrow> ProxyData_item" where
  "item_of fs = \<lparr>IP = fs ''ip'', Port = fs ''port'', ProxyPort = fs ''proxy_port'',
                 PortNum = fs ''port_num'', PortNumber = fs ''port_number''\<rparr>"

text \<open>
  An array decoded into the slice \<^verbatim>\<open>Data\<close>: element \<open>i\<close> of the array is decoded into
  element \<open>i\<close> of the slice if the slice has one (a second \<^verbatim>\<open>"data"\<close> key in the same
  object finds the elements of the first), into a zero element otherwise, and the slice
  ends up as long as the array. \<^verbatim>\<open>null\<close> makes the slice \<^verbatim>\<open>nil\<close>. (A Go slice
  also keeps the elements beyond its length up to its capacity; they can only show again at
  an index above 0, and \<^verbatim>\<open>normalizeProxy\<close> reads the length and element 0 only.)
\<close>

fun decode_items :: "json list \<Rightarrow> (string \<Rightarrow> string) list \<Rightarrow> (string \<Rightarrow> string) list option" where
  "decode_items [] old = Some []"
| "decode_items (v # vs) old =
     (case decode_strings item_fields v (case old of [] \<Rightarrow> (\<lambda>_. []) | fs # _ \<Rightarrow> fs) of
        None \<Rightarrow> None
      | Some fs \<Rightarrow> map_option ((#) fs) (decode_items vs (tl old)))"

definition decode_Data :: "json \<Rightarrow> (string \<Rightarrow> string) list \<Rightarrow> (string \<Rightarrow> string) list option" where
  "decode_Data v old =
     (case v of JArray vs \<Rightarrow> decode_items vs old | JNull \<Rightarrow> Some [] | _ \<Rightarrow> None)"

text \<open>\<^verbatim>\<open>json.Unmarshal([]byte(proxy), &data)\<close> for a zero \<^verbatim>\<open>data\<close>: \<open>None\<close> is
  \<^verbatim>\<open>err != nil\<close> (a syntax error or a type error).\<close>

definition json_Unmarshal_ProxyData :: "string \<Rightarrow> ProxyData option" where
  "json_Unmarshal_ProxyData s =
     (case parse_json s of
        None \<Rightarrow> None
      | Some v \<Rightarrow>
         (case v of
            JObject ms \<Rightarrow>
              map_option (\<lambda>items. \<lparr>Data = map item_of items\<rparr>)
                (fold_option (\<lambda>items (k, x).
                    case lookup_field [''data''] k of
                      None \<Rightarrow> Some items
                    | Some _ \<Rightarrow> decode_Data x items) ms [])
          | JNull \<Rightarrow> Some \<lparr>Data = []\<rparr>
          | _ \<Rightarrow> None))"

section \<open>Address normalizer\<close>

text \<open>
  The JSON branch of \<^verbatim>\<open>normalizeProxy\<close>: \<open>Some\<close> is the string the branch returns,
  \<open>None\<close> means that the function goes on to the patterns (the text does not start with
  a brace, does not decode, or decodes to an empty \<^verbatim>\<open>Data\<close>).
\<close>

definition normalize_json :: "string \<Rightarrow> string option" where
  "normalize_json proxy =
     (if HasPrefix proxy ''{'' then
        (case json_Unmarshal_ProxyData proxy of
           None \<Rightarrow> None
         | Some data \<Rightarrow>
            if 0 < length (Data data) then
              (let ip = IP (hd (Data data));
                   port = Port (hd (Data data));
                   port = (if port = [] then ProxyPort (hd (Data data)) else port);
                   port = (if port = [] then PortNum (hd (Data data)) else port);
                   port = (if port = [] then PortNumber (hd (Data data)) else port);
                   port = (if port = [] then ''80'' else port)
               in Some (ip @ '':'' @ port))
            else None)
      else None)"

text \<open>The four \<^verbatim>\<open>TrimPrefix\<close> calls, in their order.\<close>

definition strip_scheme :: "string \<Rightarrow> string" where
  "strip_scheme proxy =
     TrimPrefix (TrimPrefix (TrimPrefix (TrimPrefix proxy ''http://'') ''https://'')
       ''socks4://'') ''socks5://''"

definition normalizeProxy :: "string \<Rightarrow> string" where
  "normalizeProxy proxy0 =
     (let proxy = strip_scheme proxy0
      in case normalize_json proxy of
           Some r \<Rightarrow> r
         | None \<Rightarrow>
            (case FindStringSubmatch proxy of
               Some (m1, m2) \<Rightarrow> m1 @ '':'' @ m2
             | None \<Rightarrow>
                (let ip = FindString ipRe proxy;
                     port = FindString portRe proxy
                 in if ip \<noteq> [] \<and> port \<noteq> [] then ip @ '':'' @ port else [])))"

text \<open>
  \<^verbatim>\<open>isValidProxy\<close> returns a pair \<^verbatim>\<open>(string, bool)\<close>. The loop over the port
  ranges over runes; a rune of a byte outside ASCII, or of an invalid byte, is above
  \<^verbatim>\<open>'9'\<close>, so the test on the runes is the same test on the bytes.
\<close>

definition isValidProxy :: "string \<Rightarrow> string \<times> bool" where
  "isValidProxy proxy =
     (if proxy = [] then ([], False)
      else let normalized = normalizeProxy proxy in
        if normalized = [] then ([], False)
        else let parts = Split normalized (CHR '':'') in
          if length parts \<noteq> 2 then ([], False)
          else let port = parts ! 1 in
            if length port = 0 \<or> 5 < length port then ([], False)
            else if list_ex (\<lambda>c. of_char c < (48::nat) \<or> (57::nat) < of_char c) port
            then ([], False)
            else (normalized, True))"

text \<open>A string between double quotes, to write JSON text.\<close>

definition q :: "string \<Rightarrow> string" where
  "q s = CHR 0x22 # s @ [CHR 0x22]"

section \<open>Vocabulary of the properties\<close>

text \<open>What a piece matched by an atom looks like.\<close>

fun piece_ok :: "atom \<Rightarrow> string \<Rightarrow> bool" where
  "piece_ok (Lit c) w = (w = [c])"
| "piece_ok (Digits lo hi) w =
     (list_all is_digit w \<and> lo \<le> length w \<and> (case hi of None \<Rightarrow> True | Some h \<Rightarrow> length w \<le> h))"


text \<open>
  A dotted quad as the specification describes it: four groups of one to three digits,
  separated by dots. \<open>first_digits n s\<close> is the leftmost run of digits of \<open>s\<close>, cut after
  \<open>n\<close> digits.
\<close>

definition digit_group :: "nat \<Rightarrow> string \<Rightarrow> bool" where
  "digit_group n w = (1 \<le> length w \<and> length w \<le> n \<and> list_all is_digit w)"

definition dotted_quad :: "string \<Rightarrow> bool" where
  "dotted_quad w =
     (\<exists>a b c d. w = a @ ''.'' @ b @ ''.'' @ c @ ''.'' @ d
        \<and> digit_group 3 a \<and> digit_group 3 b \<and> digit_group 3 c \<and> digit_group 3 d)"

definition contains_quad :: "string \<Rightarrow> bool" where
  "contains_quad s = (\<exists>pre w post. s = pre @ w @ post \<and> dotted_quad w)"

definition first_digits :: "nat \<Rightarrow> string \<Rightarrow> string" where
  "first_digits n s = take n (takeWhile is_digit (dropWhile (\<lambda>c. \<not> is_digit c) s))"

section \<open>Configuration (config.go, main.go)\<close>

text \<open>\<^verbatim>\<open>time.Second\<close>, in nanoseconds.\<close>

definition Second :: int where
  "Second = 1000000000"

text \<open>
  The fields of \<^verbatim>\<open>ScraperConfig\<close> that share their names with fields of
  \<^verbatim>\<open>CheckerConfig\<close> carry the prefix \<open>Scraper\<close> here.
\<close>

record ScraperConfig =
  ScraperTimeout :: int
  ScraperUserAgent :: string
  ScraperConcurrent :: int
  UserAgents :: "string list"

record CheckerConfig =
  Timeout :: int
  ConnectTimeout :: int
  Concurrent :: int
  ConcurrentHTTP :: int
  ConcurrentSOCKS5 :: int
  CheckURLs :: "string list"
  TestURL :: string
  UserAgent :: string
  StrictCheck :: bool
  DetailedOutput :: bool

record Config =
  Scraper :: ScraperConfig
  Checker :: CheckerConfig

text \<open>
  The defaults of \<^verbatim>\<open>LoadConfig\<close>: every \<^verbatim>\<open>if\<close> statement of the function is one
  step on the part of the configuration it assigns to. (\<^verbatim>\<open>CheckURLs[0]\<close> is read after
  the step that makes \<^verbatim>\<open>CheckURLs\<close> non-empty.)
\<close>

definition default_ScraperTimeout :: "ScraperConfig \<Rightarrow> ScraperConfig" where
  "default_ScraperTimeout s =
     (if ScraperTimeout s = 0 then s\<lparr>ScraperTimeout := 10 * Second\<rparr> else s)"

definition default_ScraperUserAgent :: "ScraperConfig \<Rightarrow> ScraperConfig" where
  "default_ScraperUserAgent s =
     (if ScraperUserAgent s = []
      then s\<lparr>ScraperUserAgent := ''Mozilla/5.0 (Windows NT 10.0; Win64; x64) AppleWebKit/537.36 (KHTML, like Gecko) Chrome/91.0.4472.124 Safari/537.36''\<rparr>
      else s)"

definition default_UserAgents :: "ScraperConfig \<Rightarrow> ScraperConfig" where
  "default_UserAgents s =
     (if length (UserAgents s) = 0 then s\<lparr>UserAgents := [ScraperUserAgent s]\<rparr> else s)"

definition default_ScraperConcurrent :: "ScraperConfig \<Rightarrow> ScraperConfig" where
  "default_ScraperConcurrent s =
     (if ScraperConcurrent s = 0 then s\<lparr>ScraperConcurrent := 10\<rparr> else s)"

definition default_Timeout :: "CheckerConfig \<Rightarrow> CheckerConfig" where
  "default_Timeout c =
     (if Timeout c = 0
      then (if StrictCheck c then c\<lparr>Timeout := 3 * Second\<rparr> else c\<lparr>Timeout := 10 * Second\<rparr>)
      else c)"

definition default_ConnectTimeout :: "CheckerConfig \<Rightarrow> CheckerConfig" where
  "default_ConnectTimeout c =
     (if ConnectTimeout c = 0
      then (if StrictCheck c then c\<lparr>ConnectTimeout := 3 * Second\<rparr>
            else c\<lparr>ConnectTimeout := 5 * Second\<rparr>)
      else c)"

definition default_Concurrent :: "CheckerConfig \<Rightarrow> CheckerConfig" where
  "default_Concurrent c = (if Concurrent c = 0 then c\<lparr>Concurrent := 100\<rparr> else c)"

definition default_ConcurrentHTTP :: "CheckerConfig \<Rightarrow> CheckerConfig" where
  "default_ConcurrentHTTP c =
     (if ConcurrentHTTP c = 0 then c\<lparr>ConcurrentHTTP := Concurrent c\<rparr> else c)"

definition default_ConcurrentSOCKS5 :: "CheckerConfig \<Rightarrow> CheckerConfig" where
  "default_ConcurrentSOCKS5 c =
     (if ConcurrentSOCKS5 c = 0 then c\<lparr>ConcurrentSOCKS5 := Concurrent c\<rparr> else c)"

definition default_CheckURLs :: "CheckerConfig \<Rightarrow> CheckerConfig" where
  "default_CheckURLs c =
     (if length (CheckURLs c) = 0 then c\<lparr>CheckURLs := [''http://checkip.amazonaws.com'']\<rparr>
      else c)"

definition default_TestURL :: "CheckerConfig \<Rightarrow> CheckerConfig" where
  "default_TestURL c = (if TestURL c = [] then c\<lparr>TestURL := hd (CheckURLs c)\<rparr> else c)"

definition default_UserAgent :: "ScraperConfig \<Rightarrow> CheckerConfig \<Rightarrow> CheckerConfig" where
  "default_UserAgent s c = (if UserAgent c = [] then c\<lparr>UserAgent := ScraperUserAgent s\<rparr> else c)"

definition detailed_only_strict :: "CheckerConfig \<Rightarrow> CheckerConfig" where
  "detailed_only_strict c = (if \<not> StrictCheck c then c\<lparr>DetailedOutput := False\<rparr> else c)"

text \<open>
  \<^verbatim>\<open>LoadConfig\<close> reads the file and unmarshals it into a zero \<^verbatim>\<open>Config\<close>; the
  argument here is the outcome of these two steps: \<open>None\<close> when one of them fails,
  otherwise the configuration as the file gives it, with the zero value in every field the
  file does not set. The function then applies the defaults in the order of the source.
\<close>

definition LoadConfig :: "Config option \<Rightarrow> Config option" where
  "LoadConfig file =
     (case file of
        None \<Rightarrow> None
      | Some config \<Rightarrow>
         (let s = default_ScraperConcurrent (default_UserAgents (default_ScraperUserAgent
                    (default_ScraperTimeout (Scraper config))));
              c = detailed_only_strict (default_UserAgent s (default_TestURL (default_CheckURLs
                    (default_ConcurrentSOCKS5 (default_ConcurrentHTTP (default_Concurrent
                      (default_ConnectTimeout (default_Timeout (Checker config)))))))))
          in Some \<lparr>Scraper = s, Checker = c\<rparr>))"

text \<open>
  The configuration of a run: \<^verbatim>\<open>main\<close> loads the file, then overwrites the two
  flags of the checker with the command line flags \<^verbatim>\<open>--strict\<close> and
  \<^verbatim>\<open>--detailed\<close>, and gives the result to \<^verbatim>\<open>NewProxyChecker\<close>. \<open>None\<close>: \<^verbatim>\<open>main\<close>
  logs the error and returns.
\<close>

definition main_config :: "bool \<Rightarrow> bool \<Rightarrow> Config option \<Rightarrow> Config option" where
  "main_config strictCheck detailedOutput file =
     (case LoadConfig file of
        None \<Rightarrow> None
      | Some config \<Rightarrow>
         Some (config\<lparr>Checker := (Checker config)\<lparr>StrictCheck := strictCheck,
                                                      DetailedOutput := detailedOutput\<rparr>\<rparr>))"

text \<open>A configuration file that sets nothing.\<close>

definition empty_file :: Config where
  "empty_file =
     \<lparr>Scraper = \<lparr>ScraperTimeout = 0, ScraperUserAgent = [], ScraperConcurrent = 0, UserAgents = []\<rparr>,
      Checker = \<lparr>Timeout = 0, ConnectTimeout = 0, Concurrent = 0, ConcurrentHTTP = 0,
                 ConcurrentSOCKS5 = 0, CheckURLs = [], TestURL = [], UserAgent = [],
                 StrictCheck = False, DetailedOutput = False\<rparr>\<rparr>"

text \<open>A configuration file that sets \<^verbatim>\<open>strict_check: true\<close> and nothing else.\<close>

definition strict_file :: Config where
  "strict_file = empty_file\<lparr>Checker := (Checker empty_file)\<lparr>StrictCheck := True\<rparr>\<rparr>"

section \<open>Checker engine (checker.go)\<close>

datatype ProxyType = ProxyTypeHTTP | ProxyTypeSOCKS5

record ProxyLocation =
  Country :: string
  CountryCode :: string
  City :: string
  Region :: string

record CheckResult =
  Proxy :: string
  Working :: bool
  Type :: ProxyType
  ProxyIP :: string
  Speed :: int
  Anonymous :: bool
  Location :: "ProxyLocation option"

subsection \<open>The network\<close>

text \<open>
  What the checker sees of the network. A response has its status code and its body
  (\<open>None\<close> when \<^verbatim>\<open>io.ReadAll\<close> fails). An \<^verbatim>\<open>http.Client\<close> is what its requests
  return: \<open>Do client url\<close> is the response to the GET of \<open>url\<close>, \<open>None\<close> when
  \<^verbatim>\<open>client.Do\<close> returns an error (the proxy cannot be dialled, the connection breaks,
  or the client's timeout expires: a request that does not complete within the timeout is an
  error of \<^verbatim>\<open>Do\<close>). \<open>Since client\<close> is what \<^verbatim>\<open>time.Since(start)\<close> reads in the
  check made with this client; every check builds a client of its own and reads the clock
  once.
\<close>

record Response =
  StatusCode :: int
  Body :: "string option"

record http_Client =
  Do :: "string \<Rightarrow> Response option"
  Since :: int

text \<open>
  The world outside the program: whether \<^verbatim>\<open>url.Parse\<close> accepts a URL
  (\<^verbatim>\<open>http.NewRequest\<close> with the method GET and no body fails exactly when it does not),
  whether \<^verbatim>\<open>proxy.SOCKS5\<close> returns a dialer for an address, and the client that
  results for a proxy family, a proxy address, a connect timeout and a timeout.
\<close>

record world =
  url_Parse :: "string \<Rightarrow> bool"
  proxy_SOCKS5 :: "string \<Rightarrow> bool"
  http_client :: "ProxyType \<Rightarrow> string \<Rightarrow> int \<Rightarrow> int \<Rightarrow> http_Client"

subsection \<open>Decoding the probes' responses\<close>

text \<open>The anonymous struct \<^verbatim>\<open>ipData\<close> of \<^verbatim>\<open>testProxy\<close>; its fields carry the prefix
  \<open>ip\<close> here.\<close>

record ipData =
  ipStatus :: string
  ipCountry :: string
  ipCountryCode :: string
  ipRegion :: string
  ipCity :: string
  ipQuery :: string

definition ipData_fields :: "string list" where
  "ipData_fields = [''status'', ''country'', ''countryCode'', ''regionName'', ''city'', ''query'']"

definition json_Unmarshal_ipData :: "string \<Rightarrow> ipData option" where
  "json_Unmarshal_ipData s =
     (case parse_json s of
        None \<Rightarrow> None
      | Some v \<Rightarrow>
         map_option (\<lambda>fs. \<lparr>ipStatus = fs ''status'', ipCountry = fs ''country'',
                           ipCountryCode = fs ''countryCode'', ipRegion = fs ''regionName'',
                           ipCity = fs ''city'', ipQuery = fs ''query''\<rparr>)
           (decode_strings ipData_fields v (\<lambda>_. [])))"

text \<open>
  The struct with the one field \<^verbatim>\<open>Headers map[string]string\<close>: the map is the list of
  its entries. A value stored under a key replaces the one that was there; a \<^verbatim>\<open>null\<close>
  stores the empty string; \<^verbatim>\<open>null\<close> for the map itself empties it.
\<close>

definition decode_map :: "json \<Rightarrow> (string \<times> string) list \<Rightarrow> (string \<times> string) list option" where
  "decode_map v m =
     (case v of
        JObject ms \<Rightarrow>
          fold_option (\<lambda>m (k, x).
              map_option (\<lambda>y. (k, y) # filter (\<lambda>e. fst e \<noteq> k) m) (literal_string x [])) ms m
      | JNull \<Rightarrow> Some []
      | _ \<Rightarrow> None)"

definition json_Unmarshal_headers :: "string \<Rightarrow> (string \<times> string) list option" where
  "json_Unmarshal_headers s =
     (case parse_json s of
        None \<Rightarrow> None
      | Some v \<Rightarrow>
         (case v of
            JObject ms \<Rightarrow>
              fold_option (\<lambda>m (k, x).
                  case lookup_field [''headers''] k of
                    None \<Rightarrow> Some m
                  | Some _ \<Rightarrow> decode_map x m) ms []
          | JNull \<Rightarrow> Some []
          | _ \<Rightarrow> None))"

subsection \<open>testProxy\<close>

text \<open>What \<^verbatim>\<open>testProxy\<close> returns on every error.\<close>

definition failed :: "bool \<times> string \<times> int \<times> bool \<times> ProxyLocation option" where
  "failed = (False, [], 0, False, None)"

definition testProxy :: "Config \<Rightarrow> world \<Rightarrow> http_Client \<Rightarrow> bool \<times> string \<times> int \<times> bool \<times> ProxyLocation option" where
  "testProxy c w client =
     (if \<not> StrictCheck (Checker c) then
        (if \<not> url_Parse w (TestURL (Checker c)) then failed
         else case Do client (TestURL (Checker c)) of
                None \<Rightarrow> failed
              | Some resp \<Rightarrow> (StatusCode resp = 200, [], Since client, False, None))
      else if \<not> url_Parse w ''http://ip-api.com/json'' then failed
      else case Do client ''http://ip-api.com/json'' of
             None \<Rightarrow> failed
           | Some resp \<Rightarrow>
              (case Body resp of
                 None \<Rightarrow> failed
               | Some body \<Rightarrow>
                  (case json_Unmarshal_ipData body of
                     None \<Rightarrow> failed
                   | Some ipData \<Rightarrow>
                      if ipStatus ipData \<noteq> ''success'' then failed
                      else
                        (let proxyIP = ipQuery ipData;
                             location = \<lparr>Country = ipCountry ipData,
                                         CountryCode = ipCountryCode ipData,
                                         City = ipCity ipData, Region = ipRegion ipData\<rparr>
                         in if \<not> url_Parse w ''https://httpbin.org/headers'' then failed
                            else case Do client ''https://httpbin.org/headers'' of
                                   None \<Rightarrow> failed
                                 | Some resp2 \<Rightarrow>
                                    (case Body resp2 of
                                       None \<Rightarrow> failed
                                     | Some body2 \<Rightarrow>
                                        (case json_Unmarshal_headers body2 of
                                           None \<Rightarrow> failed
                                         | Some headers \<Rightarrow>
                                            (let isAnonymous =
                                                   \<not> list_ex (\<lambda>v. Contains v proxyIP) (map snd headers);
                                                 totalTime = Since client;
                                                 working = (totalTime < 2 * Second \<and> proxyIP \<noteq> [])
                                             in (working, proxyIP, totalTime, isAnonymous,
                                                 Some location))))))))"

subsection \<open>The checker and its goroutines\<close>

text \<open>
  The shared state of a \<^verbatim>\<open>ProxyChecker\<close>. \<open>ResultChan\<close> is the sequence of the values
  sent on the channel so far (\<^verbatim>\<open>main\<close> starts a goroutine that receives and drops them,
  so that a send does not block for ever), \<open>closed\<close> whether the channel has been closed.
\<close>

record ProxyChecker =
  config :: Config
  ResultChan :: "CheckResult list"
  closed :: bool
  checkedHTTP :: nat
  checkedSOCKS5 :: nat
  workingHTTP :: nat
  workingSOCKS5 :: nat
  totalHTTP :: nat
  totalSOCKS5 :: nat

definition NewProxyChecker :: "Config \<Rightarrow> ProxyChecker" where
  "NewProxyChecker cfg =
     \<lparr>config = cfg, ResultChan = [], closed = False, checkedHTTP = 0, checkedSOCKS5 = 0,
      workingHTTP = 0, workingSOCKS5 = 0, totalHTTP = 0, totalSOCKS5 = 0\<rparr>"

text \<open>\<^verbatim>\<open>updateProgress\<close> runs under the mutex \<^verbatim>\<open>progressMu\<close>: one atomic step.\<close>

definition updateProgress :: "ProxyType \<Rightarrow> bool \<Rightarrow> ProxyChecker \<Rightarrow> ProxyChecker" where
  "updateProgress proxyType working c =
     (case proxyType of
        ProxyTypeHTTP \<Rightarrow>
          (let c = c\<lparr>checkedHTTP := checkedHTTP c + 1\<rparr>
           in if working then c\<lparr>workingHTTP := workingHTTP c + 1\<rparr> else c)
      | ProxyTypeSOCKS5 \<Rightarrow>
          (let c = c\<lparr>checkedSOCKS5 := checkedSOCKS5 c + 1\<rparr>
           in if working then c\<lparr>workingSOCKS5 := workingSOCKS5 c + 1\<rparr> else c))"

text \<open>
  The steps of a goroutine on the shared state, each of them atomic: a send on the result
  channel, and a call of \<^verbatim>\<open>updateProgress\<close>.
\<close>

datatype action = Send CheckResult | UpdateProgress ProxyType bool

fun exec :: "action \<Rightarrow> ProxyChecker \<Rightarrow> ProxyChecker" where
  "exec (Send result) c = c\<lparr>ResultChan := ResultChan c @ [result]\<rparr>"
| "exec (UpdateProgress proxyType working) c = updateProgress proxyType working c"

text \<open>
  \<^verbatim>\<open>checkHTTPProxy\<close> and \<^verbatim>\<open>checkSOCKS5Proxy\<close>: the steps the call makes on the
  shared state, in program order, and the result it returns. The probes of
  \<^verbatim>\<open>testProxy\<close> touch no shared state.
\<close>

definition checkHTTPProxy :: "Config \<Rightarrow> world \<Rightarrow> string \<Rightarrow> action list \<times> CheckResult" where
  "checkHTTPProxy c w proxyStr =
     (if \<not> url_Parse w (''http://'' @ proxyStr) then
        ([UpdateProgress ProxyTypeHTTP False],
         \<lparr>Proxy = proxyStr, Working = False, Type = ProxyTypeHTTP, ProxyIP = [], Speed = 0,
          Anonymous = False, Location = None\<rparr>)
      else
        (let client = http_client w ProxyTypeHTTP proxyStr (ConnectTimeout (Checker c))
                        (Timeout (Checker c));
             (working, proxyIP, speed, anonymous, location) = testProxy c w client;
             result = \<lparr>Proxy = proxyStr, Working = working, Type = ProxyTypeHTTP,
                       ProxyIP = proxyIP, Speed = speed, Anonymous = anonymous,
                       Location = location\<rparr>
         in ([Send result, UpdateProgress ProxyTypeHTTP working], result)))"

definition checkSOCKS5Proxy :: "Config \<Rightarrow> world \<Rightarrow> string \<Rightarrow> action list \<times> CheckResult" where
  "checkSOCKS5Proxy c w proxyStr =
     (if \<not> proxy_SOCKS5 w proxyStr then
        ([UpdateProgress ProxyTypeSOCKS5 False],
         \<lparr>Proxy = proxyStr, Working = False, Type = ProxyTypeSOCKS5, ProxyIP = [], Speed = 0,
          Anonymous = False, Location = None\<rparr>)
      else
        (let client = http_client w ProxyTypeSOCKS5 proxyStr (ConnectTimeout (Checker c))
                        (Timeout (Checker c));
             (working, proxyIP, speed, anonymous, location) = testProxy c w client;
             result = \<lparr>Proxy = proxyStr, Working = working, Type = ProxyTypeSOCKS5,
                       ProxyIP = proxyIP, Speed = speed, Anonymous = anonymous,
                       Location = location\<rparr>
         in ([Send result, UpdateProgress ProxyTypeSOCKS5 working], result)))"

subsection \<open>CheckProxies\<close>

text \<open>
  \<^verbatim>\<open>CheckProxies\<close> sets the two totals, starts one goroutine for every candidate, and
  waits for all of them before it closes the channel. The goroutines run in any
  interleaving: a schedule is the list of the goroutines that make the next step, one
  after the other (an entry that names no goroutine, or one that has finished, makes no
  step). The semaphores only keep goroutines from starting; the header rows and the
  append of a working candidate to its output file, and the progress display, change
  nothing of the checker's state: they are not modelled.
\<close>

fun step :: "nat \<Rightarrow> action list list \<times> ProxyChecker \<Rightarrow> action list list \<times> ProxyChecker" where
  "step i (gs, c) =
     (if i < length gs then
        (case gs ! i of
           [] \<Rightarrow> (gs, c)
         | a # rest \<Rightarrow> (gs[i := rest], exec a c))
      else (gs, c))"

definition run :: "nat list \<Rightarrow> action list list \<times> ProxyChecker \<Rightarrow> action list list \<times> ProxyChecker" where
  "run sched st = fold step sched st"

definition goroutines :: "world \<Rightarrow> Config \<Rightarrow> string list \<Rightarrow> string list \<Rightarrow> action list list" where
  "goroutines w cfg httpProxies socks5Proxies =
     map (\<lambda>p. fst (checkHTTPProxy cfg w p)) httpProxies
     @ map (\<lambda>p. fst (checkSOCKS5Proxy cfg w p)) socks5Proxies"

text \<open>
  The outcome of \<^verbatim>\<open>CheckProxies\<close> under a schedule: the checker as the call leaves
  it when it returns, or why it does not return: the schedule leaves a goroutine unfinished
  (\<^verbatim>\<open>wg.Wait\<close> is still waiting), or the channel was closed before the call (by an
  earlier call on the same checker; no step of a goroutine closes it), and a send or the
  final \<^verbatim>\<open>close\<close> panics.
\<close>

datatype stuck = Waiting | ClosedChannel

definition CheckProxies :: "world \<Rightarrow> nat list \<Rightarrow> string list \<Rightarrow> string list \<Rightarrow> ProxyChecker \<Rightarrow> stuck + ProxyChecker" where
  "CheckProxies w sched httpProxies socks5Proxies c =
     (let c = c\<lparr>totalHTTP := length httpProxies, totalSOCKS5 := length socks5Proxies\<rparr>;
          (gs, c) = run sched (goroutines w (config c) httpProxies socks5Proxies, c)
      in if \<not> list_all (\<lambda>g. g = []) gs then Inl Waiting
         else if closed c then Inl ClosedChannel
         else Inr (c\<lparr>closed := True\<rparr>))"

text \<open>The schedule that runs the goroutines one after the other.\<close>

definition sequential :: "action list list \<Rightarrow> nat list" where
  "sequential gs = concat (map (\<lambda>i. replicate (length (gs ! i)) i) [0 ..< length gs])"

section \<open>Vocabulary of the checker's properties\<close>

text \<open>
  The steps that goroutines still have to make, weighted: \<open>progress_of t\<close> counts the calls
  of \<^verbatim>\<open>updateProgress\<close> for the family \<open>t\<close>, \<open>sent\<close> collects the results to be sent.
\<close>

definition pending :: "(action \<Rightarrow> 'a::comm_monoid_add) \<Rightarrow> action list list \<Rightarrow> 'a" where
  "pending wt gs = sum_list (map wt (concat gs))"

fun progress_of :: "ProxyType \<Rightarrow> action \<Rightarrow> nat" where
  "progress_of t (UpdateProgress t' working) = (if t = t' then 1 else 0)"
| "progress_of t (Send result) = 0"

fun sent :: "action \<Rightarrow> CheckResult multiset" where
  "sent (Send result) = {#result#}"
| "sent (UpdateProgress t working) = {#}"

text \<open>The results a run publishes: one for every candidate whose transport could be built.\<close>

definition published :: "world \<Rightarrow> Config \<Rightarrow> string list \<Rightarrow> string list \<Rightarrow> CheckResult multiset" where
  "published w cfg httpProxies socks5Proxies =
     mset (map (\<lambda>p. snd (checkHTTPProxy cfg w p))
            (filter (\<lambda>p. url_Parse w (''http://'' @ p)) httpProxies))
     + mset (map (\<lambda>p. snd (checkSOCKS5Proxy cfg w p)) (filter (proxy_SOCKS5 w) socks5Proxies))"

text \<open>What the two probes of the strict check yield when they succeed.\<close>

definition geolocation :: "http_Client \<Rightarrow> ipData option" where
  "geolocation client =
     (case Do client ''http://ip-api.com/json'' of
        None \<Rightarrow> None
      | Some resp \<Rightarrow>
         (case Body resp of
            None \<Rightarrow> None
          | Some body \<Rightarrow>
             (case json_Unmarshal_ipData body of
                None \<Rightarrow> None
              | Some d \<Rightarrow> if ipStatus d = ''success'' then Some d else None)))"

definition headers_echo :: "http_Client \<Rightarrow> (string \<times> string) list option" where
  "headers_echo client =
     (case Do client ''https://httpbin.org/headers'' of
        None \<Rightarrow> None
      | Some resp \<Rightarrow>
         (case Body resp of
            None \<Rightarrow> None
          | Some body \<Rightarrow> json_Unmarshal_headers body))"

text \<open>
  An example world. Its \<^verbatim>\<open>url.Parse\<close> rejects the URLs with a space or a vertical bar
  (Go's rejects both characters in a host name) and accepts the others; a SOCKS5 dialer is
  always returned. The proxy 2.2.2.2:8080 answers every request of the checker (the test
  URL with status 200, the geolocation lookup with the egress IP 2.2.2.2, the headers echo
  with one header), the proxy 3.3.3.3:1080 answers the geolocation lookup only, no other
  proxy answers at all. The clock reads one second in the checks that get a response.
\<close>

definition geo_body :: string where
  "geo_body = ''{'' @ q ''status'' @ '':'' @ q ''success'' @ '','' @ q ''country'' @ '':'' @ q ''Iceland''
              @ '','' @ q ''query'' @ '':'' @ q ''2.2.2.2'' @ ''}''"

definition headers_body :: string where
  "headers_body = ''{'' @ q ''headers'' @ '':{'' @ q ''Host'' @ '':'' @ q ''httpbin.org'' @ ''}}''"

definition good_client :: http_Client where
  "good_client =
     \<lparr>Do = (\<lambda>url. if url = ''http://checkip.amazonaws.com''
                    then Some \<lparr>StatusCode = 200, Body = Some ''2.2.2.2''\<rparr>
                    else if url = ''http://ip-api.com/json''
                    then Some \<lparr>StatusCode = 200, Body = Some geo_body\<rparr>
                    else if url = ''https://httpbin.org/headers''
                    then Some \<lparr>StatusCode = 200, Body = Some headers_body\<rparr>
                    else None),
      Since = Second\<rparr>"

definition half_client :: http_Client where
  "half_client =
     \<lparr>Do = (\<lambda>url. if url = ''http://ip-api.com/json''
                    then Some \<lparr>StatusCode = 200, Body = Some geo_body\<rparr>
                    else None),
      Since = Second\<rparr>"

definition dead_client :: http_Client where
  "dead_client = \<lparr>Do = (\<lambda>url. None), Since = 0\<rparr>"

definition example_world :: world where
  "example_world =
     \<lparr>url_Parse = (\<lambda>u. CHR ''|'' \<notin> set u \<and> CHR '' '' \<notin> set u),
      proxy_SOCKS5 = (\<lambda>address. True),
      http_client = (\<lambda>t p connectTimeout timeout.
                       if p = ''2.2.2.2:8080'' then good_client
                       else if p = ''3.3.3.3:1080'' then half_client else dead_client)\<rparr>"

text \<open>The configurations of a run without flags and of a run with \<^verbatim>\<open>--strict\<close>, on a
  configuration file that sets nothing.\<close>

definition basic_config :: Config where
  "basic_config = the (main_config False False (Some empty_file))"

definition strict_config :: Config where
  "strict_config = the (main_config True False (Some empty_file))"

text \<open>A run on two HTTP candidates and one SOCKS5 candidate, the goroutines interleaved.\<close>

definition example_run :: "stuck + ProxyChecker" where
  "example_run =
     CheckProxies example_world [2, 0, 1, 1, 0, 2] [''1.1.1.1:80'', ''2.2.2.2:8080'']
       [''3.3.3.3:1080''] (NewProxyChecker basic_config)"

section \<open>Properties of the deduplicator\<close>

lemma RemoveDuplicates_loop_fresh:
  "RemoveDuplicates_loop xs seen result = result @ fresh xs seen"
  by (induction xs arbitrary: seen result) simp_all

lemma set_fresh: "set (fresh xs seen) = set xs - seen"
  by (induction xs arbitrary: seen) auto

lemma distinct_fresh: "distinct (fresh xs seen)"
  by (induction xs arbitrary: seen) (simp_all add: set_fresh)

lemma first_index_Cons_other: "y \<noteq> x \<Longrightarrow> first_index (x # xs) y = Suc (first_index xs y)"
  by (simp add: first_index_def)

lemma map_first_index_Cons:
  assumes "x \<notin> set ys"
  shows "map (first_index (x # xs)) ys = map (Suc \<circ> first_index xs) ys"
  using assms by (induction ys) (auto simp: first_index_Cons_other)

lemma sorted_wrt_map_Suc: "sorted_wrt (<) (map (Suc \<circ> f) ys) = sorted_wrt (<) (map f ys)"
  by (induction ys) auto

lemma fresh_first_index: "sorted_wrt (<) (map (first_index xs) (fresh xs seen))"
proof (induction xs arbitrary: seen)
  case Nil
  show ?case by simp
next
  case (Cons x xs)
  show ?case
  proof (cases "x \<in> seen")
    case True
    then have "x \<notin> set (fresh xs seen)" by (simp add: set_fresh)
    then show ?thesis
      using True Cons.IH [of seen] by (simp add: map_first_index_Cons sorted_wrt_map_Suc)
  next
    case False
    let ?ys = "fresh xs (insert x seen)"
    have "x \<notin> set ?ys" by (simp add: set_fresh)
    then have m: "map (first_index (x # xs)) ?ys = map (Suc \<circ> first_index xs) ?ys"
      by (rule map_first_index_Cons)
    have tail: "sorted_wrt (<) (map (first_index (x # xs)) ?ys)"
      unfolding m sorted_wrt_map_Suc by (rule Cons.IH)
    have pos: "\<forall>n \<in> set (map (first_index (x # xs)) ?ys). 0 < n"
      unfolding m by simp
    have z: "first_index (x # xs) x = 0" by (simp add: first_index_def)
    have "fresh (x # xs) seen = x # ?ys" using False by simp
    then show ?thesis using tail pos z by (simp del: fresh.simps)
  qed
qed

text \<open>
  C7. For every input list, \<^verbatim>\<open>RemoveDuplicates\<close> returns a list without repeated
  elements, that holds exactly the elements of the input, in the order of their first
  occurrences in the input (the positions of the first occurrences of the output's elements
  are strictly increasing), and whose length is the number of distinct elements of the
  input. Elements are compared as strings.
\<close>

theorem RemoveDuplicates_first_occurrences:
  "distinct (RemoveDuplicates proxies)
   \<and> set (RemoveDuplicates proxies) = set proxies
   \<and> sorted_wrt (<) (map (first_index proxies) (RemoveDuplicates proxies))
   \<and> length (RemoveDuplicates proxies) = card (set proxies)"
proof -
  have eq: "RemoveDuplicates proxies = fresh proxies {}"
    by (simp add: RemoveDuplicates_def RemoveDuplicates_loop_fresh)
  have d: "distinct (fresh proxies {})" by (rule distinct_fresh)
  have s: "set (fresh proxies {}) = set proxies" by (simp add: set_fresh)
  have "length (fresh proxies {}) = card (set (fresh proxies {}))"
    using d by (simp add: distinct_card)
  then show ?thesis
    using eq d s fresh_first_index [of proxies "{}"] by simp
qed

section \<open>Properties of the matcher\<close>

text \<open>
  The backtracking search is sound (the pieces it returns are pieces of its atoms, and
  their concatenation is a prefix of the input) and complete (it finds a match wherever
  one exists).
\<close>

lemma first_some_Some: "first_some f xs = Some y \<Longrightarrow> \<exists>x \<in> set xs. f x = Some y"
  by (induction xs) (auto split: option.splits)

lemma first_some_None: "(first_some f xs = None) = (\<forall>x \<in> set xs. f x = None)"
  by (induction xs) (auto split: option.splits)

lemma first_some_mem: "x \<in> set xs \<Longrightarrow> f x \<noteq> None \<Longrightarrow> first_some f xs \<noteq> None"
  by (simp add: first_some_None) blast

lemma first_some_hd: "f x = Some y \<Longrightarrow> first_some f (x # xs) = Some y"
  by simp

lemma take_run_digits:
  assumes "k \<le> length (takeWhile is_digit s)"
  shows "list_all is_digit (take k s) \<and> length (take k s) = k"
proof -
  have le: "length (takeWhile is_digit s) \<le> length s" by (rule length_takeWhile_le)
  have "take k s = take k (takeWhile is_digit s)"
    using assms by (metis takeWhile_dropWhile_id take_append diff_is_0_eq take_0 append_Nil2)
  moreover have "list_all is_digit (takeWhile is_digit s)"
    by (simp add: list_all_iff) (meson set_takeWhileD)
  ultimately have "list_all is_digit (take k s)"
    by (metis list_all_iff in_set_takeD)
  then show ?thesis using assms le by simp
qed

lemma match_here_sound:
  "match_here p s = Some ps \<Longrightarrow> list_all2 piece_ok p ps \<and> (\<exists>rest. s = concat ps @ rest)"
proof (induction p arbitrary: s ps)
  case Nil
  then show ?case by simp
next
  case (Cons a p)
  show ?case
  proof (cases a)
    case (Lit c)
    with Cons.prems obtain xs ps' where s: "s = c # xs" and m: "match_here p xs = Some ps'"
      and ps: "ps = [c] # ps'"
      by (auto split: list.splits if_splits)
    from Cons.IH [OF m] show ?thesis using Lit s ps by auto
  next
    case (Digits lo hi)
    define most where "most = (case hi of None \<Rightarrow> length (takeWhile is_digit s)
                               | Some h \<Rightarrow> min (length (takeWhile is_digit s)) h)"
    from Cons.prems Digits
    have "first_some (\<lambda>k. map_option ((#) (take k s)) (match_here p (drop k s)))
            (rev [lo ..< Suc most]) = Some ps"
      by (simp add: most_def Let_def)
    then obtain k where k: "k \<in> set (rev [lo ..< Suc most])"
      and mk: "map_option ((#) (take k s)) (match_here p (drop k s)) = Some ps"
      by (blast dest: first_some_Some)
    then obtain ps' where m: "match_here p (drop k s) = Some ps'" and ps: "ps = take k s # ps'"
      by auto
    have klo: "lo \<le> k" and kmost: "k \<le> most" using k by auto
    have krun: "k \<le> length (takeWhile is_digit s)"
      using kmost by (auto simp: most_def split: option.splits)
    have khi: "case hi of None \<Rightarrow> True | Some h \<Rightarrow> k \<le> h"
      using kmost by (auto simp: most_def split: option.splits)
    from take_run_digits [OF krun] have d: "list_all is_digit (take k s)" and l: "length (take k s) = k"
      by simp_all
    from Cons.IH [OF m] obtain rest where a2: "list_all2 piece_ok p ps'" and r: "drop k s = concat ps' @ rest"
      by blast
    have "s = concat ps @ rest"
      using r ps by (metis append_take_drop_id concat.simps(2) append_assoc)
    then show ?thesis using Digits ps a2 d l klo khi by (auto split: option.splits)
  qed
qed

lemma takeWhile_append_ge:
  "list_all P w \<Longrightarrow> length w \<le> length (takeWhile P (w @ r))"
  by (induction w) auto

lemma match_here_Digits:
  "match_here (Digits lo hi # p) s =
     first_some (\<lambda>k. map_option ((#) (take k s)) (match_here p (drop k s)))
       (rev [lo ..< Suc (case hi of None \<Rightarrow> length (takeWhile is_digit s)
                         | Some h \<Rightarrow> min (length (takeWhile is_digit s)) h)])"
  by (simp add: Let_def del: upt_Suc)

lemma match_here_complete:
  "list_all2 piece_ok p ps \<Longrightarrow> match_here p (concat ps @ rest) \<noteq> None"
proof (induction p ps rule: list_all2_induct)
  case Nil
  show ?case by simp
next
  case (Cons a p w ps)
  show ?case
  proof (cases a)
    case (Lit c)
    with Cons show ?thesis by auto
  next
    case (Digits lo hi)
    define s where "s = concat (w # ps) @ rest"
    define most where "most = (case hi of None \<Rightarrow> length (takeWhile is_digit s)
                               | Some h \<Rightarrow> min (length (takeWhile is_digit s)) h)"
    let ?f = "\<lambda>k. map_option ((#) (take k s)) (match_here p (drop k s))"
    from Cons.hyps(1) Digits have d: "list_all is_digit w" and lo: "lo \<le> length w"
      and hi: "case hi of None \<Rightarrow> True | Some h \<Rightarrow> length w \<le> h"
      by simp_all
    have s: "s = w @ (concat ps @ rest)" by (simp add: s_def)
    have "length w \<le> length (takeWhile is_digit s)"
      unfolding s using d by (rule takeWhile_append_ge)
    then have "length w \<le> most"
      using hi by (auto simp: most_def split: option.splits)
    then have mem: "length w \<in> set (rev [lo ..< Suc most])" using lo by auto
    have "drop (length w) s = concat ps @ rest" by (simp add: s)
    then have "?f (length w) \<noteq> None" using Cons.IH by simp
    with mem have "first_some ?f (rev [lo ..< Suc most]) \<noteq> None"
      by (rule first_some_mem)
    then have "match_here (Digits lo hi # p) s \<noteq> None"
      unfolding match_here_Digits most_def .
    then show ?thesis unfolding Digits s_def .
  qed
qed

lemma find_first_Some:
  "find_first p s = Some ps \<Longrightarrow> \<exists>pre s'. s = pre @ s' \<and> match_here p s' = Some ps"
proof (induction s)
  case Nil
  then show ?case by simp
next
  case (Cons c cs)
  show ?case
  proof (cases "match_here p (c # cs)")
    case None
    with Cons.prems have "find_first p cs = Some ps" by simp
    from Cons.IH [OF this] obtain pre s' where "cs = pre @ s'" "match_here p s' = Some ps" by blast
    then have "c # cs = (c # pre) @ s'" by simp
    then show ?thesis using \<open>match_here p s' = Some ps\<close> by blast
  next
    case (Some a)
    with Cons.prems have "match_here p (c # cs) = Some ps" by simp
    then show ?thesis by (metis append_Nil)
  qed
qed

lemma find_first_complete:
  "match_here p s' \<noteq> None \<Longrightarrow> find_first p (pre @ s') \<noteq> None"
proof (induction pre)
  case Nil
  then show ?case by (cases s') auto
next
  case (Cons c pre)
  then show ?case by (auto split: option.splits)
qed

lemma ipRe_pieces:
  "list_all2 piece_ok ipRe ps =
     (\<exists>a b c d. ps = [a, ''.'', b, ''.'', c, ''.'', d]
        \<and> digit_group 3 a \<and> digit_group 3 b \<and> digit_group 3 c \<and> digit_group 3 d)"
  by (auto simp: ipRe_def list_all2_Cons1 digit_group_def)

lemma ipRe_dotted_quad:
  assumes "list_all2 piece_ok ipRe ps"
  shows "dotted_quad (concat ps)"
proof -
  from assms obtain a b c d where ps: "ps = [a, ''.'', b, ''.'', c, ''.'', d]"
    and g: "digit_group 3 a" "digit_group 3 b" "digit_group 3 c" "digit_group 3 d"
    unfolding ipRe_pieces by blast
  have "concat ps = a @ ''.'' @ b @ ''.'' @ c @ ''.'' @ d" by (simp add: ps)
  with g show ?thesis unfolding dotted_quad_def by blast
qed

lemma dotted_quad_pieces: "dotted_quad w \<Longrightarrow> \<exists>ps. list_all2 piece_ok ipRe ps \<and> w = concat ps"
  unfolding ipRe_pieces dotted_quad_def by fastforce

lemma find_first_ipRe_complete:
  assumes "contains_quad s"
  shows "find_first ipRe s \<noteq> None"
proof -
  from assms obtain pre w post where s: "s = pre @ w @ post" and w: "dotted_quad w"
    unfolding contains_quad_def by blast
  from dotted_quad_pieces [OF w] obtain ps where ps: "list_all2 piece_ok ipRe ps" and "w = concat ps"
    by blast
  then have "match_here ipRe (w @ post) \<noteq> None"
    using match_here_complete [OF ps, of post] by simp
  then show ?thesis unfolding s by (rule find_first_complete)
qed

lemma find_first_ipRe_sound:
  assumes "find_first ipRe s = Some ps"
  shows "dotted_quad (concat ps) \<and> (\<exists>pre post. s = pre @ concat ps @ post)"
proof -
  from find_first_Some [OF assms] obtain pre s' where s: "s = pre @ s'"
    and m: "match_here ipRe s' = Some ps" by blast
  from match_here_sound [OF m] obtain rest where ok: "list_all2 piece_ok ipRe ps"
    and s': "s' = concat ps @ rest" by blast
  show ?thesis using ipRe_dotted_quad [OF ok] s s' by blast
qed

lemma FindString_ipRe:
  assumes "contains_quad s"
  shows "dotted_quad (FindString ipRe s) \<and> (\<exists>pre post. s = pre @ FindString ipRe s @ post)"
proof -
  from find_first_ipRe_complete [OF assms] obtain ps where ps: "find_first ipRe s = Some ps"
    by blast
  then have "FindString ipRe s = concat ps" by (simp add: FindString_def)
  then show ?thesis using find_first_ipRe_sound [OF ps] by simp
qed

lemma match_here_portRe:
  "match_here portRe s =
     (if s \<noteq> [] \<and> is_digit (hd s) then Some [take 5 (takeWhile is_digit s)] else None)"
proof (cases "s \<noteq> [] \<and> is_digit (hd s)")
  case True
  define run where "run = length (takeWhile is_digit s)"
  from True have "takeWhile is_digit s \<noteq> []" by (cases s) auto
  then have run: "1 \<le> run" by (simp add: run_def Suc_le_eq)
  then have "rev [1 ..< Suc (min run 5)] = min run 5 # rev [1 ..< min run 5]"
    by simp
  moreover have "take (min run 5) s = take 5 (takeWhile is_digit s)"
  proof -
    have "take 5 (takeWhile is_digit s) = take (min run 5) (takeWhile is_digit s)"
      by (cases "run \<le> 5") (simp_all add: run_def min_def)
    also have "\<dots> = take (min run 5) s"
      by (metis (no_types) min.cobounded1 run_def take_run_digits takeWhile_dropWhile_id
          take_append diff_is_0_eq take_0 append_Nil2)
    finally show ?thesis by simp
  qed
  ultimately show ?thesis
    using True by (simp add: portRe_def match_here_Digits run_def del: upt_Suc match_here.simps(3))
next
  case False
  then have "takeWhile is_digit s = []" by (cases s) auto
  then show ?thesis using False by (simp add: portRe_def)
qed

lemma FindString_portRe: "FindString portRe s = first_digits 5 s"
proof (induction s)
  case Nil
  show ?case by (simp add: FindString_def first_digits_def match_here_portRe)
next
  case (Cons c cs)
  show ?case
  proof (cases "is_digit c")
    case True
    then show ?thesis
      by (simp add: FindString_def first_digits_def match_here_portRe)
  next
    case False
    then have "find_first portRe (c # cs) = find_first portRe cs"
      by (simp add: match_here_portRe)
    then show ?thesis using Cons.IH False by (simp add: FindString_def first_digits_def)
  qed
qed

lemma first_digits_digits: "list_all is_digit (first_digits n s)"
  unfolding first_digits_def list_all_iff by (meson in_set_takeD set_takeWhileD)

lemma first_digits_length: "length (first_digits n s) \<le> n"
  by (simp add: first_digits_def)

lemma first_digits_nonempty:
  assumes "x \<in> set s" "is_digit x" "0 < n"
  shows "first_digits n s \<noteq> []"
proof -
  from assms have "dropWhile (\<lambda>c. \<not> is_digit c) s \<noteq> []" by auto
  then obtain y ys where d: "dropWhile (\<lambda>c. \<not> is_digit c) s = y # ys" by (cases "dropWhile (\<lambda>c. \<not> is_digit c) s") auto
  then have "is_digit y" using hd_dropWhile [of "\<lambda>c. \<not> is_digit c" s] by auto
  then show ?thesis using d assms(3) by (cases n) (auto simp: first_digits_def)
qed

section \<open>Properties of the normalizer and of the validity check\<close>

lemma Split_nonempty: "Split s sep \<noteq> []"
  by (induction s) (auto split: list.splits)

lemma hd_Split: "hd (Split s sep) = takeWhile (\<lambda>c. c \<noteq> sep) s"
  by (induction s) (auto split: list.splits simp: Split_nonempty)

lemma Split_no_sep: "sep \<notin> set s \<Longrightarrow> Split s sep = [s]"
  by (induction s) auto

lemma Split_append_sep: "sep \<notin> set a \<Longrightarrow> Split (a @ sep # b) sep = a # Split b sep"
  by (induction a) auto

lemma is_digit_not_colon: "is_digit c \<Longrightarrow> c \<noteq> CHR '':''"
  by (auto simp: is_digit_def)

lemma digits_no_colon: "list_all is_digit w \<Longrightarrow> CHR '':'' \<notin> set w"
  by (auto simp: list_all_iff dest: is_digit_not_colon)

lemma dotted_quad_no_colon: "dotted_quad w \<Longrightarrow> CHR '':'' \<notin> set w"
  by (auto simp: dotted_quad_def digit_group_def dest: digits_no_colon)

lemma dotted_quad_digit:
  assumes "dotted_quad w"
  shows "w \<noteq> [] \<and> is_digit (hd w)"
proof -
  from assms obtain a r where w: "w = a @ r" and a: "digit_group 3 a"
    unfolding dotted_quad_def by blast
  from a obtain x xs where "a = x # xs" "is_digit x"
    by (cases a) (auto simp: digit_group_def)
  then show ?thesis using w by simp
qed

lemma FindStringSubmatch_digit:
  assumes "FindStringSubmatch s = Some (m1, m2)"
  shows "m1 \<noteq> [] \<and> is_digit (hd m1)"
proof -
  from assms obtain ps where f: "find_first re s = Some ps" and m1: "m1 = concat (take 7 ps)"
    by (auto simp: FindStringSubmatch_def)
  from find_first_Some [OF f] obtain pre s' where "match_here re s' = Some ps" by blast
  from match_here_sound [OF this] have "list_all2 piece_ok re ps" by blast
  moreover have "re = Digits 1 (Some 3) # tl re" by (simp add: re_def ipRe_def)
  ultimately obtain w ps' where ps: "ps = w # ps'" and w: "piece_ok (Digits 1 (Some 3)) w"
    by (metis list_all2_Cons1)
  from w obtain x xs where "w = x # xs" "is_digit x" by (cases w) auto
  then show ?thesis using m1 ps by simp
qed

lemma normalizeProxy_digit:
  assumes "normalize_json (strip_scheme proxy) = None" and "normalizeProxy proxy \<noteq> []"
  shows "is_digit (hd (normalizeProxy proxy))"
proof (cases "FindStringSubmatch (strip_scheme proxy)")
  case (Some m)
  obtain m1 m2 where m: "m = (m1, m2)" by (cases m)
  from FindStringSubmatch_digit [OF Some [unfolded m]] show ?thesis
    using assms(1) Some m by (simp add: normalizeProxy_def)
next
  case None
  let ?ip = "FindString ipRe (strip_scheme proxy)"
  from assms None have ip: "?ip \<noteq> []" and n: "normalizeProxy proxy = ?ip @ '':'' @ FindString portRe (strip_scheme proxy)"
    by (auto simp: normalizeProxy_def Let_def split: if_splits)
  from ip obtain ps where f: "find_first ipRe (strip_scheme proxy) = Some ps" and c: "?ip = concat ps"
    by (auto simp: FindString_def split: option.splits)
  from find_first_ipRe_sound [OF f] have "dotted_quad ?ip" by (simp add: c)
  from dotted_quad_digit [OF this] show ?thesis using n by simp
qed

lemma length_2: "length xs = 2 \<Longrightarrow> \<exists>a b. xs = [a, b]"
  by (cases xs; cases "tl xs") auto

lemma isValidProxy_True:
  "(isValidProxy proxy = (normalized, True)) =
     (proxy \<noteq> [] \<and> normalized = normalizeProxy proxy \<and> normalized \<noteq> []
      \<and> length (Split normalized (CHR '':'')) = 2
      \<and> Split normalized (CHR '':'') ! 1 \<noteq> []
      \<and> length (Split normalized (CHR '':'') ! 1) \<le> 5
      \<and> \<not> list_ex (\<lambda>c. of_char c < (48::nat) \<or> (57::nat) < of_char c)
            (Split normalized (CHR '':'') ! 1))"
  by (auto simp: isValidProxy_def Let_def)


text \<open>
  C3 (as amended). If \<^verbatim>\<open>isValidProxy\<close> accepts a raw line and returns a normalized
  candidate, then splitting the candidate on the colon yields exactly two segments, and the
  second one, the port, has one to five characters, all of them ASCII digits. The first
  segment is not checked: it is non-empty whenever the candidate does not come from the
  JSON branch of the normalizer.
\<close>

theorem isValidProxy_accepts:
  assumes "isValidProxy proxy = (normalized, True)"
  shows "\<exists>host port. Split normalized (CHR '':'') = [host, port]
           \<and> 1 \<le> length port \<and> length port \<le> 5 \<and> list_all is_digit port
           \<and> (normalize_json (strip_scheme proxy) = None \<longrightarrow> host \<noteq> [])"
proof -
  let ?parts = "Split normalized (CHR '':'')"
  from assms [unfolded isValidProxy_True]
  have n: "normalized = normalizeProxy proxy" and ne: "normalized \<noteq> []"
    and len: "length ?parts = 2" and p1: "?parts ! 1 \<noteq> []" and p2: "length (?parts ! 1) \<le> 5"
    and p3: "\<not> list_ex (\<lambda>c. of_char c < (48::nat) \<or> (57::nat) < of_char c) (?parts ! 1)"
    by blast+
  from length_2 [OF len] obtain host port where sp: "?parts = [host, port]"
    by blast
  have port: "?parts ! 1 = port" by (simp add: sp)
  have l1: "1 \<le> length port" using p1 port by (cases port) auto
  have l2: "length port \<le> 5" using p2 port by simp
  have d: "list_all is_digit port"
    using p3 unfolding port by (auto simp: list_all_iff list_ex_iff is_digit_def not_less)
  have h: "host \<noteq> []" if "normalize_json (strip_scheme proxy) = None"
  proof -
    from normalizeProxy_digit [OF that] ne n have "is_digit (hd normalized)" by simp
    then have "hd normalized \<noteq> CHR '':''" by (rule is_digit_not_colon)
    then have "takeWhile (\<lambda>c. c \<noteq> CHR '':'') normalized \<noteq> []"
      using ne by (cases normalized) auto
    then show ?thesis using hd_Split [of normalized "CHR '':''"] sp by simp
  qed
  show ?thesis
    using sp l1 l2 d h by (intro exI [of _ host] exI [of _ port]) simp
qed

theorem isValidProxy_accepts_witness:
  "isValidProxy ''http://1.2.3.4:8080'' = (''1.2.3.4:8080'', True)
   \<and> Split ''1.2.3.4:8080'' (CHR '':'') = [''1.2.3.4'', ''8080'']
   \<and> normalize_json (strip_scheme ''http://1.2.3.4:8080'') = None"
proof -
  have v: "isValidProxy ''http://1.2.3.4:8080'' = (''1.2.3.4:8080'', True)" by code_simp
  have j: "normalize_json (strip_scheme ''http://1.2.3.4:8080'') = None" by code_simp
  have s: "Split ''1.2.3.4:8080'' (CHR '':'') = [''1.2.3.4'', ''8080'']" by simp
  from isValidProxy_accepts [OF v] v j s show ?thesis by simp
qed

text \<open>
  C3 as it is stated fails: the first segment can be empty. For the line
  \<^verbatim>\<open>{"data":[{"port":"80"}]}\<close> the JSON branch reads an empty \<^verbatim>\<open>ip\<close>, the
  normalizer returns \<^verbatim>\<open>:80\<close>, and \<^verbatim>\<open>isValidProxy\<close> accepts it.
\<close>

theorem isValidProxy_empty_host:
  "isValidProxy (''{'' @ q ''data'' @ '':[{'' @ q ''port'' @ '':'' @ q ''80'' @ ''}]}'') = ('':80'', True)
   \<and> Split '':80'' (CHR '':'') = [[], ''80'']"
proof -
  have "isValidProxy (''{'' @ q ''data'' @ '':[{'' @ q ''port'' @ '':'' @ q ''80'' @ ''}]}'')
          = ('':80'', True)"
    by code_simp
  then show ?thesis by simp
qed

lemma strip_scheme_Nil: "strip_scheme [] = []"
  by (simp add: strip_scheme_def TrimPrefix_def HasPrefix_def)

lemma dotted_quad_has_digit:
  assumes "dotted_quad w"
  shows "\<exists>x \<in> set w. is_digit x"
  using dotted_quad_digit [OF assms] by (cases w) auto

lemma normalizeProxy_fallback:
  assumes nj: "normalize_json (strip_scheme proxy) = None"
    and nre: "FindStringSubmatch (strip_scheme proxy) = None"
    and cq: "contains_quad (strip_scheme proxy)"
  shows "normalizeProxy proxy
           = FindString ipRe (strip_scheme proxy) @ '':'' @ first_digits 5 (strip_scheme proxy)"
    and "first_digits 5 (strip_scheme proxy) \<noteq> []"
proof -
  let ?s = "strip_scheme proxy"
  from FindString_ipRe [OF cq] have q: "dotted_quad (FindString ipRe ?s)" by blast
  then have ip: "FindString ipRe ?s \<noteq> []" using dotted_quad_digit by blast
  from cq obtain pre w post where s: "?s = pre @ w @ post" and w: "dotted_quad w"
    unfolding contains_quad_def by blast
  from dotted_quad_has_digit [OF w] obtain x where "x \<in> set ?s" "is_digit x"
    unfolding s by auto
  then show port: "first_digits 5 ?s \<noteq> []" by (rule first_digits_nonempty) simp
  show "normalizeProxy proxy = FindString ipRe ?s @ '':'' @ first_digits 5 ?s"
    using nj nre ip port by (simp add: normalizeProxy_def FindString_portRe Let_def)
qed

lemma normalizeProxy_bare_quad: "normalizeProxy ''1.2.3.4'' = ''1.2.3.4:1''"
  by code_simp

lemma isValidProxy_bare_quad: "isValidProxy ''1.2.3.4'' = (''1.2.3.4:1'', True)"
  by code_simp

lemma isValidProxy_quad_1: "isValidProxy ''1.2.3.4:1'' = (''1.2.3.4:1'', True)"
  by code_simp

text \<open>
  C10. When the text left after the scheme is stripped is handled neither by the JSON
  branch nor by the strict \<^verbatim>\<open>ip:port\<close> pattern, and contains a dotted quad, then
  \<^verbatim>\<open>normalizeProxy\<close> does not reject: it returns a dotted quad of the text, a colon,
  and the leftmost run of up to five digits of the text (which can be the first digits of
  the quad itself), and \<^verbatim>\<open>isValidProxy\<close> accepts the line with that result. In
  particular \<^verbatim>\<open>normalizeProxy("1.2.3.4")\<close> is \<^verbatim>\<open>"1.2.3.4:1"\<close>, which
  \<^verbatim>\<open>isValidProxy\<close> accepts.
\<close>

theorem normalizeProxy_fallback_never_rejects:
  assumes nj: "normalize_json (strip_scheme proxy) = None"
    and nre: "FindStringSubmatch (strip_scheme proxy) = None"
    and cq: "contains_quad (strip_scheme proxy)"
  shows "normalizeProxy proxy \<noteq> []
       \<and> (\<exists>pre ip post. strip_scheme proxy = pre @ ip @ post \<and> dotted_quad ip
             \<and> normalizeProxy proxy = ip @ '':'' @ first_digits 5 (strip_scheme proxy))
       \<and> isValidProxy proxy = (normalizeProxy proxy, True)
       \<and> normalizeProxy ''1.2.3.4'' = ''1.2.3.4:1''
       \<and> isValidProxy ''1.2.3.4'' = (''1.2.3.4:1'', True)
       \<and> isValidProxy ''1.2.3.4:1'' = (''1.2.3.4:1'', True)"
proof -
  let ?s = "strip_scheme proxy"
  let ?ip = "FindString ipRe ?s"
  let ?port = "first_digits 5 ?s"
  note n = normalizeProxy_fallback(1) [OF nj nre cq]
  note port = normalizeProxy_fallback(2) [OF nj nre cq]
  from FindString_ipRe [OF cq] obtain pre post where q: "dotted_quad ?ip"
    and s: "?s = pre @ ?ip @ post" by blast
  have ne: "normalizeProxy proxy \<noteq> []" by (simp add: n)
  have a: "\<exists>pre ip post. ?s = pre @ ip @ post \<and> dotted_quad ip
             \<and> normalizeProxy proxy = ip @ '':'' @ ?port"
    using s q n by blast
  have pne: "proxy \<noteq> []"
  proof
    assume "proxy = []"
    then have "?s = []" by (simp add: strip_scheme_Nil)
    with s q show False using dotted_quad_digit by auto
  qed
  have d: "list_all is_digit ?port" by (rule first_digits_digits)
  have sp: "Split (normalizeProxy proxy) (CHR '':'') = [?ip, ?port]"
    unfolding n using dotted_quad_no_colon [OF q] digits_no_colon [OF d]
    by (simp add: Split_append_sep Split_no_sep)
  have ok: "\<not> list_ex (\<lambda>c. of_char c < (48::nat) \<or> (57::nat) < of_char c) ?port"
    using d by (auto simp: list_all_iff list_ex_iff is_digit_def)
  have v: "isValidProxy proxy = (normalizeProxy proxy, True)"
    unfolding isValidProxy_True using pne ne port ok first_digits_length [of 5 ?s]
    by (simp add: sp)
  show ?thesis using ne a v normalizeProxy_bare_quad isValidProxy_bare_quad isValidProxy_quad_1 by blast
qed

lemma contains_quad_example: "contains_quad ''1.2.3.4''"
proof -
  have "''1.2.3.4'' = [] @ ''1.2.3.4'' @ []" by simp
  moreover have "dotted_quad ''1.2.3.4''"
    unfolding dotted_quad_def
    by (rule exI [of _ "''1''"], rule exI [of _ "''2''"], rule exI [of _ "''3''"], rule exI [of _ "''4''"])
       (simp add: digit_group_def is_digit_def)
  ultimately show ?thesis unfolding contains_quad_def by blast
qed

lemma normalize_json_bare_quad: "normalize_json (strip_scheme ''1.2.3.4'') = None"
  by code_simp

lemma FindStringSubmatch_bare_quad: "FindStringSubmatch (strip_scheme ''1.2.3.4'') = None"
  by code_simp

theorem normalizeProxy_fallback_witness:
  "normalize_json (strip_scheme ''1.2.3.4'') = None
   \<and> FindStringSubmatch (strip_scheme ''1.2.3.4'') = None
   \<and> contains_quad (strip_scheme ''1.2.3.4'')
   \<and> normalizeProxy ''1.2.3.4'' = ''1.2.3.4:1''
   \<and> isValidProxy ''1.2.3.4'' = (normalizeProxy ''1.2.3.4'', True)"
proof -
  have s: "strip_scheme ''1.2.3.4'' = ''1.2.3.4''" by code_simp
  have cq: "contains_quad (strip_scheme ''1.2.3.4'')" unfolding s by (rule contains_quad_example)
  from normalizeProxy_fallback_never_rejects [OF normalize_json_bare_quad FindStringSubmatch_bare_quad cq]
    normalize_json_bare_quad FindStringSubmatch_bare_quad cq
  show ?thesis by simp
qed

lemma takeWhile_digits_stop:
  assumes "list_all is_digit w" and "r = [] \<or> \<not> is_digit (hd r)"
  shows "takeWhile is_digit (w @ r) = w"
proof -
  have "takeWhile is_digit r = []" using assms(2) by (cases r) auto
  then show ?thesis using assms(1) by (simp add: list_all_iff takeWhile_append2)
qed

lemma match_here_Digits_exact:
  assumes d: "list_all is_digit w" and lo: "lo \<le> length w"
    and hi: "case hi of None \<Rightarrow> True | Some h \<Rightarrow> length w \<le> h"
    and stop: "r = [] \<or> \<not> is_digit (hd r)"
    and rest: "match_here p r = Some ps"
  shows "match_here (Digits lo hi # p) (w @ r) = Some (w # ps)"
proof -
  define most where "most = (case hi of None \<Rightarrow> length (takeWhile is_digit (w @ r))
                             | Some h \<Rightarrow> min (length (takeWhile is_digit (w @ r))) h)"
  have "most = length w"
    using hi by (simp add: most_def takeWhile_digits_stop [OF d stop] split: option.splits)
  then have "rev [lo ..< Suc most] = length w # rev [lo ..< length w]"
    using lo by simp
  then show ?thesis
    unfolding match_here_Digits most_def [symmetric] using rest by simp
qed

lemma match_here_Lit: "match_here p r = Some ps \<Longrightarrow> match_here (Lit c # p) (c # r) = Some ([c] # ps)"
  by simp

lemma not_digit_dot: "\<not> is_digit (CHR ''.'')" and not_digit_colon: "\<not> is_digit (CHR '':'')"
  by (simp_all add: is_digit_def)

lemma find_first_here: "match_here p s = Some ps \<Longrightarrow> find_first p s = Some ps"
  by (cases s) auto

lemma FindStringSubmatch_exact:
  assumes "digit_group 3 a" "digit_group 3 b" "digit_group 3 c" "digit_group 3 d"
    and "list_all is_digit p" "1 \<le> length p"
  shows "FindStringSubmatch (a @ ''.'' @ b @ ''.'' @ c @ ''.'' @ d @ '':'' @ p)
           = Some (a @ ''.'' @ b @ ''.'' @ c @ ''.'' @ d, p)"
proof -
  have 9: "match_here [Digits 1 None] (p @ []) = Some [p]"
    using assms(5,6) by (intro match_here_Digits_exact) simp_all
  have 8: "match_here [Lit (CHR '':''), Digits 1 None] ('':'' @ p) = Some ['':'', p]"
    using 9 by simp
  have 7: "match_here [Digits 1 (Some 3), Lit (CHR '':''), Digits 1 None] (d @ '':'' @ p)
             = Some [d, '':'', p]"
    using assms(4) 8 by (intro match_here_Digits_exact) (simp_all add: digit_group_def not_digit_colon)
  have 6: "match_here [Lit (CHR ''.''), Digits 1 (Some 3), Lit (CHR '':''), Digits 1 None]
             (''.'' @ d @ '':'' @ p) = Some [''.'', d, '':'', p]"
    using 7 by simp
  have 5: "match_here [Digits 1 (Some 3), Lit (CHR ''.''), Digits 1 (Some 3), Lit (CHR '':''), Digits 1 None]
             (c @ ''.'' @ d @ '':'' @ p) = Some [c, ''.'', d, '':'', p]"
    using assms(3) 6 by (intro match_here_Digits_exact) (simp_all add: digit_group_def not_digit_dot)
  have 4: "match_here [Lit (CHR ''.''), Digits 1 (Some 3), Lit (CHR ''.''), Digits 1 (Some 3),
               Lit (CHR '':''), Digits 1 None]
             (''.'' @ c @ ''.'' @ d @ '':'' @ p) = Some [''.'', c, ''.'', d, '':'', p]"
    using 5 by simp
  have 3: "match_here [Digits 1 (Some 3), Lit (CHR ''.''), Digits 1 (Some 3), Lit (CHR ''.''),
               Digits 1 (Some 3), Lit (CHR '':''), Digits 1 None]
             (b @ ''.'' @ c @ ''.'' @ d @ '':'' @ p) = Some [b, ''.'', c, ''.'', d, '':'', p]"
    using assms(2) 4 by (intro match_here_Digits_exact) (simp_all add: digit_group_def not_digit_dot)
  have 2: "match_here [Lit (CHR ''.''), Digits 1 (Some 3), Lit (CHR ''.''), Digits 1 (Some 3),
               Lit (CHR ''.''), Digits 1 (Some 3), Lit (CHR '':''), Digits 1 None]
             (''.'' @ b @ ''.'' @ c @ ''.'' @ d @ '':'' @ p)
             = Some [''.'', b, ''.'', c, ''.'', d, '':'', p]"
    using 3 by simp
  have 1: "match_here re (a @ ''.'' @ b @ ''.'' @ c @ ''.'' @ d @ '':'' @ p)
             = Some [a, ''.'', b, ''.'', c, ''.'', d, '':'', p]"
    unfolding re_def ipRe_def append.simps
    using assms(1) 2 by (intro match_here_Digits_exact) (simp_all add: digit_group_def not_digit_dot)
  show ?thesis
    unfolding FindStringSubmatch_def find_first_here [OF 1] by simp
qed

lemma strip_scheme_digit:
  assumes "s \<noteq> []" "is_digit (hd s)"
  shows "strip_scheme s = s" and "normalize_json s = None"
proof -
  from assms obtain x xs where s: "s = x # xs" and x: "is_digit x" by (cases s) auto
  from x have "x \<noteq> CHR ''h''" "x \<noteq> CHR ''s''" "x \<noteq> CHR ''{''"
    by (auto simp: is_digit_def)
  then show "strip_scheme s = s" and "normalize_json s = None"
    by (simp_all add: s strip_scheme_def TrimPrefix_def HasPrefix_def normalize_json_def)
qed

text \<open>
  C8. \<^verbatim>\<open>isValidProxy("1.2.3.4:99999")\<close> accepts and returns its argument;
  \<^verbatim>\<open>isValidProxy("1.2.3.4:123456")\<close> rejects. Neither the octets nor the port are
  checked against a range: any four groups of one to three digits with any port of one to
  five digits are accepted as they are.
\<close>

theorem isValidProxy_no_range_check:
  assumes "digit_group 3 a" "digit_group 3 b" "digit_group 3 c" "digit_group 3 d"
    and "digit_group 5 p"
  shows "isValidProxy (a @ ''.'' @ b @ ''.'' @ c @ ''.'' @ d @ '':'' @ p)
           = (a @ ''.'' @ b @ ''.'' @ c @ ''.'' @ d @ '':'' @ p, True)
       \<and> isValidProxy ''1.2.3.4:99999'' = (''1.2.3.4:99999'', True)
       \<and> isValidProxy ''1.2.3.4:123456'' = ([], False)"
proof -
  define ip where "ip = a @ ''.'' @ b @ ''.'' @ c @ ''.'' @ d"
  define s where "s = a @ ''.'' @ b @ ''.'' @ c @ ''.'' @ d @ '':'' @ p"
  have s: "s = ip @ CHR '':'' # p" by (simp add: s_def ip_def)
  from assms(1) obtain x xs where a: "a = x # xs" and x: "is_digit x"
    by (cases a) (auto simp: digit_group_def)
  have ne: "s \<noteq> []" and hd: "is_digit (hd s)" using a x by (simp_all add: s_def)
  have p: "list_all is_digit p" "1 \<le> length p" "length p \<le> 5"
    using assms(5) by (simp_all add: digit_group_def)
  have m: "FindStringSubmatch s = Some (ip, p)"
    unfolding s_def ip_def by (rule FindStringSubmatch_exact [OF assms(1-4) p(1,2)])
  have n: "normalizeProxy s = s"
    by (simp add: normalizeProxy_def strip_scheme_digit [OF ne hd] m) (simp add: s)
  have q: "dotted_quad ip" unfolding dotted_quad_def ip_def using assms(1-4) by blast
  have sp: "Split s (CHR '':'') = [ip, p]"
    unfolding s using dotted_quad_no_colon [OF q] digits_no_colon [OF p(1)]
    by (simp add: Split_append_sep Split_no_sep)
  have ok: "\<not> list_ex (\<lambda>c. of_char c < (48::nat) \<or> (57::nat) < of_char c) p"
    using p(1) by (auto simp: list_all_iff list_ex_iff is_digit_def)
  have pne: "p \<noteq> []" using p(2) by auto
  have "isValidProxy s = (s, True)"
    unfolding isValidProxy_True n sp using ne pne p(3) ok by simp
  moreover have "isValidProxy ''1.2.3.4:99999'' = (''1.2.3.4:99999'', True)" by code_simp
  moreover have "isValidProxy ''1.2.3.4:123456'' = ([], False)" by code_simp
  ultimately show ?thesis unfolding s_def by blast
qed

theorem isValidProxy_no_range_check_witness:
  "digit_group 3 ''999'' \<and> digit_group 5 ''99999''
   \<and> isValidProxy ''999.999.999.999:99999'' = (''999.999.999.999:99999'', True)"
proof -
  have g: "digit_group 3 ''999''" and p: "digit_group 5 ''99999''"
    by (simp_all add: digit_group_def is_digit_def)
  from isValidProxy_no_range_check [OF g g g g p] g p show ?thesis by simp
qed

text \<open>The JSON branch takes the first populated port field of the first element, and 80 when
  none is populated.\<close>

lemma normalize_json_port:
  assumes "HasPrefix proxy ''{''" and "json_Unmarshal_ProxyData proxy = Some data"
    and "Data data = item # items"
  shows "normalize_json proxy =
           Some (IP item @ '':'' @
             (if Port item \<noteq> [] then Port item
              else if ProxyPort item \<noteq> [] then ProxyPort item
              else if PortNum item \<noteq> [] then PortNum item
              else if PortNumber item \<noteq> [] then PortNumber item
              else ''80''))"
  using assms by (simp add: normalize_json_def)

text \<open>
  C9. The positive vectors of the normalizer: a scheme is stripped, a plain address is
  returned as it is, the JSON form gives \<^verbatim>\<open>ip:port\<close>, and a JSON element without a
  port field gets port 80.
\<close>

theorem normalizeProxy_vectors:
  "normalizeProxy ''http://1.2.3.4:8080'' = ''1.2.3.4:8080''
   \<and> normalizeProxy ''5.6.7.8:3128'' = ''5.6.7.8:3128''
   \<and> normalizeProxy (''{'' @ q ''data'' @ '':[{'' @ q ''ip'' @ '':'' @ q ''9.9.9.9'' @ '',''
                          @ q ''port'' @ '':'' @ q ''1080'' @ ''}]}'') = ''9.9.9.9:1080''
   \<and> normalizeProxy (''{'' @ q ''data'' @ '':[{'' @ q ''ip'' @ '':'' @ q ''9.9.9.9'' @ ''}]}'')
       = ''9.9.9.9:80''"
proof -
  have 1: "normalizeProxy ''http://1.2.3.4:8080'' = ''1.2.3.4:8080''" by code_simp
  have 2: "normalizeProxy ''5.6.7.8:3128'' = ''5.6.7.8:3128''" by code_simp
  have 3: "normalizeProxy (''{'' @ q ''data'' @ '':[{'' @ q ''ip'' @ '':'' @ q ''9.9.9.9'' @ '',''
                          @ q ''port'' @ '':'' @ q ''1080'' @ ''}]}'') = ''9.9.9.9:1080''"
    by code_simp
  have 4: "normalizeProxy (''{'' @ q ''data'' @ '':[{'' @ q ''ip'' @ '':'' @ q ''9.9.9.9'' @ ''}]}'')
       = ''9.9.9.9:80''"
    by code_simp
  show ?thesis using 1 2 3 4 by blast
qed

text \<open>The JSON texts of these vectors, byte for byte.\<close>

lemma json_vectors_text:
  "''{'' @ q ''data'' @ '':[{'' @ q ''ip'' @ '':'' @ q ''9.9.9.9'' @ '','' @ q ''port'' @ '':'' @ q ''1080'' @ ''}]}''
     = [CHR ''{'', CHR 0x22, CHR ''d'', CHR ''a'', CHR ''t'', CHR ''a'', CHR 0x22, CHR '':'', CHR ''['',
        CHR ''{'', CHR 0x22, CHR ''i'', CHR ''p'', CHR 0x22, CHR '':'', CHR 0x22, CHR ''9'', CHR ''.'',
        CHR ''9'', CHR ''.'', CHR ''9'', CHR ''.'', CHR ''9'', CHR 0x22, CHR '','', CHR 0x22, CHR ''p'',
        CHR ''o'', CHR ''r'', CHR ''t'', CHR 0x22, CHR '':'', CHR 0x22, CHR ''1'', CHR ''0'', CHR ''8'',
        CHR ''0'', CHR 0x22, CHR ''}'', CHR '']'', CHR ''}'']"
  by (simp add: q_def)

section \<open>The parser consumes its input\<close>

text \<open>
  Every scanner and every parser function that returns leaves less input than it was
  given: the tests on the lengths in \<open>parse_elements\<close> and \<open>parse_members\<close> always
  succeed.
\<close>

lemma scan_string_shorter: "scan_string cs = Some (l, r) \<Longrightarrow> length r < Suc (length cs)"
proof (induction cs arbitrary: l r rule: scan_string.induct)
  case 1
  then show ?case by simp
next
  case (2 c cs)
  show ?case
  proof (cases "c = CHR 0x22")
    case True
    with "2.prems" show ?thesis by simp
  next
    case False
    show ?thesis
      using "2.prems" "2.IH" False
      by (fastforce split: if_splits list.splits simp: less_Suc_eq)
  qed
qed

lemma scan_digits_shorter: "scan_digits s = Some (ds, r) \<Longrightarrow> length r < length s"
proof -
  assume a: "scan_digits s = Some (ds, r)"
  then have ne: "takeWhile is_digit s \<noteq> []" and r: "r = dropWhile is_digit s"
    by (auto simp: scan_digits_def Let_def split: if_splits)
  have "length (takeWhile is_digit s) + length (dropWhile is_digit s) = length s"
    by (metis length_append takeWhile_dropWhile_id)
  with ne r show ?thesis by (cases "takeWhile is_digit s") auto
qed

lemma scan_int_shorter: "scan_int s = Some (i, r) \<Longrightarrow> length r < length s"
  by (auto simp: scan_int_def split: list.splits if_splits dest: scan_digits_shorter)

lemma scan_frac_shorter: "scan_frac s = Some (f, r) \<Longrightarrow> length r \<le> length s"
  by (auto simp: scan_frac_def split: list.splits if_splits dest!: scan_digits_shorter)

lemma scan_exp_shorter: "scan_exp s = Some (e, r) \<Longrightarrow> length r \<le> length s"
  by (auto simp: scan_exp_def split: list.splits if_splits dest!: scan_digits_shorter)

lemma scan_number_shorter: "scan_number s = Some (n, r) \<Longrightarrow> length r < length s"
  by (auto simp: scan_number_def Let_def split: list.splits if_splits option.splits prod.splits
      dest!: scan_int_shorter scan_frac_shorter scan_exp_shorter)

lemma take_eq_length: "take n s = w \<Longrightarrow> length w = n \<Longrightarrow> 0 < n \<Longrightarrow> length (drop n s) < length s"
  by (cases "n \<le> length s") auto

lemma parse_shorter:
  "parse_value d s = Some (v, r) \<Longrightarrow> length r < length s"
  "parse_elements d s = Some (vs, r1) \<Longrightarrow> length r1 < length s"
  "parse_members d s = Some (ms, r2) \<Longrightarrow> length r2 < length s"
proof (induction d s and d s and d s arbitrary: v r and vs r1 and ms r2
    rule: parse_value_parse_elements_parse_members.induct)
  case (1 d s)
  note p = "1.prems" [unfolded parse_value.simps [of d s]]
  from p obtain c cs where s: "s = c # cs" by (cases s) auto
  show ?case
  proof (cases "c = CHR ''{''")
    case True
    with p s obtain c' cs' where sk: "skip_space cs = c' # cs'" and nd: "\<not> maxNestingDepth \<le> d"
      by (auto split: if_splits list.splits)
    show ?thesis
    proof (cases "c' = CHR ''}''")
      case True
      with p s \<open>c = CHR ''{''\<close> sk nd have "r = cs'" by simp
      then show ?thesis using skip_space_Cons_length [OF sk] s by simp
    next
      case False
      with p s \<open>c = CHR ''{''\<close> sk nd obtain ms where
        "parse_members (Suc d) (c' # cs') = Some (ms, r)" by auto
      from "1.IH"(1) [OF s \<open>c = CHR ''{''\<close> nd sk False this]
      have "length r < length (c' # cs')" .
      moreover have "length (c' # cs') \<le> length cs"
        using length_skip_space [of cs] sk by simp
      ultimately show ?thesis using s by simp
    qed
  next
    case notobj: False
    show ?thesis
    proof (cases "c = CHR ''[''")
      case True
      with p s obtain c' cs' where sk: "skip_space cs = c' # cs'" and nd: "\<not> maxNestingDepth \<le> d"
        by (auto split: if_splits list.splits)
      show ?thesis
      proof (cases "c' = CHR '']''")
        case True
        with p s \<open>c = CHR ''[''\<close> sk nd have "r = cs'" by simp
        then show ?thesis using skip_space_Cons_length [OF sk] s by simp
      next
        case False
        with p s \<open>c = CHR ''[''\<close> sk nd obtain vs where
          "parse_elements (Suc d) (c' # cs') = Some (vs, r)" by auto
        from "1.IH"(2) [OF s notobj \<open>c = CHR ''[''\<close> nd sk False this]
        have "length r < length (c' # cs')" .
        moreover have "length (c' # cs') \<le> length cs"
          using length_skip_space [of cs] sk by simp
        ultimately show ?thesis using s by simp
      qed
    next
      case notarr: False
      show ?thesis
      proof (cases "c = CHR 0x22")
        case True
        with p s notobj notarr obtain l where "scan_string cs = Some (l, r)" by auto
        from scan_string_shorter [OF this] show ?thesis using s by simp
      next
        case notstr: False
        from p s notobj notarr notstr
        consider "take 4 s = ''true''" "r = drop 4 s" | "take 5 s = ''false''" "r = drop 5 s"
          | "take 4 s = ''null''" "r = drop 4 s" | n where "scan_number s = Some (n, r)"
          by (auto split: if_splits)
        then show ?thesis
        proof cases
          case 1
          then show ?thesis using take_eq_length [of 4 s "''true''"] by simp
        next
          case 2
          then show ?thesis using take_eq_length [of 5 s "''false''"] by simp
        next
          case 3
          then show ?thesis using take_eq_length [of 4 s "''null''"] by simp
        next
          case 4
          then show ?thesis by (rule scan_number_shorter)
        qed
      qed
    qed
  qed
next
  case (2 d s)
  note p = "2.prems" [unfolded parse_elements.simps [of d s]]
  from p obtain v r where pv: "parse_value d s = Some (v, r)" and lt: "length r < length s"
    by (auto split: option.splits if_splits)
  from p pv lt obtain c cs where sk: "skip_space r = c # cs"
    by (auto split: list.splits)
  have cs: "length cs < length s" using skip_space_Cons_length [OF sk] lt by simp
  show ?case
  proof (cases "c = CHR '']''")
    case True
    with p pv lt sk have "r1 = cs" by simp
    then show ?thesis using cs by simp
  next
    case False
    with p pv lt sk have comma: "c = CHR '',''" by (auto split: if_splits)
    with p pv lt sk False obtain vs' where
      pe: "parse_elements d (skip_space cs) = Some (vs', r1)" by auto
    from "2.IH"(2) [OF pv refl lt sk False comma pe]
    have "length r1 < length (skip_space cs)" .
    then show ?thesis using length_skip_space [of cs] cs by simp
  qed
next
  case (3 d s)
  note p = "3.prems" [unfolded parse_members.simps [of d s]]
  from p obtain c cs where s: "s = c # cs" and c: "c = CHR 0x22"
    by (cases s) (auto split: if_splits)
  from p s c obtain l r where ss: "scan_string cs = Some (l, r)"
    by (auto split: option.splits)
  from p s c ss obtain c1 r1' where sk1: "skip_space r = c1 # r1'"
    by (auto split: list.splits)
  from p s c ss sk1 have c1: "c1 = CHR '':''" and lt1: "length r1' < length s"
    by (auto split: if_splits)
  from p s c ss sk1 c1 lt1 obtain v r2' where pv: "parse_value d (skip_space r1') = Some (v, r2')"
    by (auto split: option.splits)
  from p s c ss sk1 c1 lt1 pv have lt2: "length r2' < length s"
    by (auto split: if_splits)
  from p s c ss sk1 c1 lt1 pv lt2 obtain c2 r3 where sk2: "skip_space r2' = c2 # r3"
    by (auto split: list.splits)
  have r3: "length r3 < length s" using skip_space_Cons_length [OF sk2] lt2 by simp
  show ?case
  proof (cases "c2 = CHR ''}''")
    case True
    with p s c ss sk1 c1 lt1 pv lt2 sk2 have "r2 = r3" by simp
    then show ?thesis using r3 by simp
  next
    case False
    with p s c ss sk1 c1 lt1 pv lt2 sk2 have comma: "c2 = CHR '',''" by (auto split: if_splits)
    with p s c ss sk1 c1 lt1 pv lt2 sk2 False obtain ms' where
      pm: "parse_members d (skip_space r3) = Some (ms', r2)" by auto
    have "length r2 < length (skip_space r3)"
      using "3.IH"(2) pm s c ss sk1 c1 lt1 pv lt2 sk2 False comma by blast
    then show ?thesis using length_skip_space [of r3] r3 by simp
  qed
qed

section \<open>Properties of the configuration\<close>

lemma defaults_StrictCheck:
  "StrictCheck (default_Timeout c) = StrictCheck c"
  "StrictCheck (default_ConnectTimeout c) = StrictCheck c"
  "StrictCheck (default_Concurrent c) = StrictCheck c"
  "StrictCheck (default_ConcurrentHTTP c) = StrictCheck c"
  "StrictCheck (default_ConcurrentSOCKS5 c) = StrictCheck c"
  "StrictCheck (default_CheckURLs c) = StrictCheck c"
  "StrictCheck (default_TestURL c) = StrictCheck c"
  "StrictCheck (default_UserAgent s c) = StrictCheck c"
  "StrictCheck (detailed_only_strict c) = StrictCheck c"
  by (simp_all add: default_Timeout_def default_ConnectTimeout_def default_Concurrent_def
      default_ConcurrentHTTP_def default_ConcurrentSOCKS5_def default_CheckURLs_def
      default_TestURL_def default_UserAgent_def detailed_only_strict_def)

lemma defaults_Timeout:
  "Timeout (default_ConnectTimeout c) = Timeout c"
  "Timeout (default_Concurrent c) = Timeout c"
  "Timeout (default_ConcurrentHTTP c) = Timeout c"
  "Timeout (default_ConcurrentSOCKS5 c) = Timeout c"
  "Timeout (default_CheckURLs c) = Timeout c"
  "Timeout (default_TestURL c) = Timeout c"
  "Timeout (default_UserAgent s c) = Timeout c"
  "Timeout (detailed_only_strict c) = Timeout c"
  by (simp_all add: default_ConnectTimeout_def default_Concurrent_def
      default_ConcurrentHTTP_def default_ConcurrentSOCKS5_def default_CheckURLs_def
      default_TestURL_def default_UserAgent_def detailed_only_strict_def)

lemma defaults_ConnectTimeout:
  "ConnectTimeout (default_Timeout c) = ConnectTimeout c"
  "ConnectTimeout (default_Concurrent c) = ConnectTimeout c"
  "ConnectTimeout (default_ConcurrentHTTP c) = ConnectTimeout c"
  "ConnectTimeout (default_ConcurrentSOCKS5 c) = ConnectTimeout c"
  "ConnectTimeout (default_CheckURLs c) = ConnectTimeout c"
  "ConnectTimeout (default_TestURL c) = ConnectTimeout c"
  "ConnectTimeout (default_UserAgent s c) = ConnectTimeout c"
  "ConnectTimeout (detailed_only_strict c) = ConnectTimeout c"
  by (simp_all add: default_Timeout_def default_Concurrent_def
      default_ConcurrentHTTP_def default_ConcurrentSOCKS5_def default_CheckURLs_def
      default_TestURL_def default_UserAgent_def detailed_only_strict_def)

lemma LoadConfig_timeouts:
  assumes "LoadConfig (Some file) = Some cfg"
  shows "StrictCheck (Checker cfg) = StrictCheck (Checker file)"
    and "Timeout (Checker cfg) =
           (if Timeout (Checker file) \<noteq> 0 then Timeout (Checker file)
            else if StrictCheck (Checker file) then 3 * Second else 10 * Second)"
    and "ConnectTimeout (Checker cfg) =
           (if ConnectTimeout (Checker file) \<noteq> 0 then ConnectTimeout (Checker file)
            else if StrictCheck (Checker file) then 3 * Second else 5 * Second)"
proof -
  from assms have c: "Checker cfg = detailed_only_strict (default_UserAgent (Scraper cfg)
      (default_TestURL (default_CheckURLs (default_ConcurrentSOCKS5 (default_ConcurrentHTTP
        (default_Concurrent (default_ConnectTimeout (default_Timeout (Checker file)))))))))"
    by (auto simp: LoadConfig_def Let_def)
  show "StrictCheck (Checker cfg) = StrictCheck (Checker file)"
    by (simp add: c defaults_StrictCheck)
  show "Timeout (Checker cfg) =
           (if Timeout (Checker file) \<noteq> 0 then Timeout (Checker file)
            else if StrictCheck (Checker file) then 3 * Second else 10 * Second)"
    by (simp add: c defaults_Timeout) (simp add: default_Timeout_def)
  show "ConnectTimeout (Checker cfg) =
           (if ConnectTimeout (Checker file) \<noteq> 0 then ConnectTimeout (Checker file)
            else if StrictCheck (Checker file) then 3 * Second else 5 * Second)"
    by (simp add: c defaults_ConnectTimeout defaults_StrictCheck)
       (simp add: default_ConnectTimeout_def defaults_StrictCheck defaults_ConnectTimeout)
qed

text \<open>Whatever the file says about strict mode, the run is strict exactly when the flag is
  given, and its timeouts are those \<^verbatim>\<open>LoadConfig\<close> chose from the file.\<close>

lemma main_config_timeouts:
  assumes "main_config strictCheck detailedOutput (Some file) = Some cfg"
  shows "StrictCheck (Checker cfg) = strictCheck"
    and "Timeout (Checker cfg) =
           (if Timeout (Checker file) \<noteq> 0 then Timeout (Checker file)
            else if StrictCheck (Checker file) then 3 * Second else 10 * Second)"
    and "ConnectTimeout (Checker cfg) =
           (if ConnectTimeout (Checker file) \<noteq> 0 then ConnectTimeout (Checker file)
            else if StrictCheck (Checker file) then 3 * Second else 5 * Second)"
proof -
  from assms obtain cfg0 where l: "LoadConfig (Some file) = Some cfg0"
    and cfg: "cfg = cfg0\<lparr>Checker := (Checker cfg0)\<lparr>StrictCheck := strictCheck,
                                                     DetailedOutput := detailedOutput\<rparr>\<rparr>"
    by (auto simp: main_config_def split: option.splits)
  show "StrictCheck (Checker cfg) = strictCheck" by (simp add: cfg)
  show "Timeout (Checker cfg) =
           (if Timeout (Checker file) \<noteq> 0 then Timeout (Checker file)
            else if StrictCheck (Checker file) then 3 * Second else 10 * Second)"
    using LoadConfig_timeouts(2) [OF l] by (simp add: cfg)
  show "ConnectTimeout (Checker cfg) =
           (if ConnectTimeout (Checker file) \<noteq> 0 then ConnectTimeout (Checker file)
            else if StrictCheck (Checker file) then 3 * Second else 5 * Second)"
    using LoadConfig_timeouts(3) [OF l] by (simp add: cfg)
qed

text \<open>
  C4. The claim that a strict run with unset timeouts gets the defaults of 3 seconds fails
  on the code: \<^verbatim>\<open>LoadConfig\<close> chooses the defaults from the \<^verbatim>\<open>strict_check\<close> of the
  file, and \<^verbatim>\<open>main\<close> sets strict mode from the flag \<^verbatim>\<open>--strict\<close> afterwards. With a
  file that sets nothing and the flag \<^verbatim>\<open>--strict\<close>, the run is strict with a connect
  timeout of 5 seconds and a timeout of 10 seconds; with a file that only sets
  \<^verbatim>\<open>strict_check\<close> and without the flag, the run is not strict and has the timeouts of
  3 seconds.
\<close>

theorem main_strict_flag_after_defaults:
  "map_option (\<lambda>c. (StrictCheck (Checker c), ConnectTimeout (Checker c), Timeout (Checker c)))
     (main_config True False (Some empty_file)) = Some (True, 5 * Second, 10 * Second)
   \<and> map_option (\<lambda>c. (StrictCheck (Checker c), ConnectTimeout (Checker c), Timeout (Checker c)))
     (main_config False False (Some strict_file)) = Some (False, 3 * Second, 3 * Second)"
  by code_simp

section \<open>Properties of the checker\<close>

subsection \<open>The two checking policies\<close>

lemma fst_failed: "fst failed = False"
  by (simp add: failed_def)

text \<open>
  The classification of a candidate is the verdict of \<^verbatim>\<open>testProxy\<close> on the client
  built for it with the configured timeouts, unless the transport cannot be built.
\<close>

lemma checkHTTPProxy_Working:
  "Working (snd (checkHTTPProxy c w p))
     = (url_Parse w (''http://'' @ p)
        \<and> fst (testProxy c w (http_client w ProxyTypeHTTP p (ConnectTimeout (Checker c))
                                (Timeout (Checker c)))))"
  by (auto simp: checkHTTPProxy_def Let_def split: prod.splits)

lemma checkSOCKS5Proxy_Working:
  "Working (snd (checkSOCKS5Proxy c w p))
     = (proxy_SOCKS5 w p
        \<and> fst (testProxy c w (http_client w ProxyTypeSOCKS5 p (ConnectTimeout (Checker c))
                                (Timeout (Checker c)))))"
  by (auto simp: checkSOCKS5Proxy_def Let_def split: prod.splits)

lemma testProxy_basic_200:
  assumes "\<not> StrictCheck (Checker c)"
  shows "fst (testProxy c w client)
           = (url_Parse w (TestURL (Checker c))
              \<and> (\<exists>resp. Do client (TestURL (Checker c)) = Some resp \<and> StatusCode resp = 200))"
  using assms by (auto simp: testProxy_def fst_failed split: option.splits)

lemma configs_loaded:
  "main_config False False (Some empty_file) = Some basic_config"
  "main_config True False (Some empty_file) = Some strict_config"
  by code_simp+

text \<open>
  C5. In basic mode a verification is \<^verbatim>\<open>Working\<close> exactly when the one GET of the
  configured test URL returns a response (the request can be built, and \<^verbatim>\<open>Do\<close>
  returns no error, which includes that it completes within the client's timeout) whose
  status code is 200; a request error, a timeout and any other status give
  \<^verbatim>\<open>Rejected\<close>. For a candidate of either family, the client is the one built for the
  candidate with the configured connect timeout and timeout, and a candidate for which no
  client can be built is \<^verbatim>\<open>Rejected\<close> without a request.
\<close>

theorem testProxy_basic:
  assumes "\<not> StrictCheck (Checker c)"
  shows "fst (testProxy c w client)
           = (url_Parse w (TestURL (Checker c))
              \<and> (\<exists>resp. Do client (TestURL (Checker c)) = Some resp \<and> StatusCode resp = 200))
       \<and> Working (snd (checkHTTPProxy c w p))
           = (url_Parse w (''http://'' @ p) \<and> url_Parse w (TestURL (Checker c))
              \<and> (\<exists>resp. Do (http_client w ProxyTypeHTTP p (ConnectTimeout (Checker c))
                                (Timeout (Checker c))) (TestURL (Checker c)) = Some resp
                        \<and> StatusCode resp = 200))
       \<and> Working (snd (checkSOCKS5Proxy c w p))
           = (proxy_SOCKS5 w p \<and> url_Parse w (TestURL (Checker c))
              \<and> (\<exists>resp. Do (http_client w ProxyTypeSOCKS5 p (ConnectTimeout (Checker c))
                                (Timeout (Checker c))) (TestURL (Checker c)) = Some resp
                        \<and> StatusCode resp = 200))"
  unfolding checkHTTPProxy_Working checkSOCKS5Proxy_Working testProxy_basic_200 [OF assms]
  by simp

theorem testProxy_basic_witness:
  "\<not> StrictCheck (Checker basic_config)
   \<and> fst (testProxy basic_config example_world good_client)
   \<and> \<not> fst (testProxy basic_config example_world dead_client)
   \<and> Working (snd (checkHTTPProxy basic_config example_world ''2.2.2.2:8080''))
   \<and> \<not> Working (snd (checkSOCKS5Proxy basic_config example_world ''3.3.3.3:1080''))"
proof -
  have b: "\<not> StrictCheck (Checker basic_config)" by code_simp
  have u: "url_Parse example_world (TestURL (Checker basic_config))" by code_simp
  have g: "Do good_client (TestURL (Checker basic_config)) = Some \<lparr>StatusCode = 200, Body = Some ''2.2.2.2''\<rparr>"
    by code_simp
  have d: "Do dead_client (TestURL (Checker basic_config)) = None" by code_simp
  have h: "Working (snd (checkHTTPProxy basic_config example_world ''2.2.2.2:8080''))" by code_simp
  have s: "\<not> Working (snd (checkSOCKS5Proxy basic_config example_world ''3.3.3.3:1080''))" by code_simp
  from testProxy_basic [OF b, of example_world good_client]
  have 1: "fst (testProxy basic_config example_world good_client)" using u g by simp
  from testProxy_basic [OF b, of example_world dead_client]
  have 2: "\<not> fst (testProxy basic_config example_world dead_client)" using d by simp
  show ?thesis using b 1 2 h s by blast
qed

text \<open>
  C1 (as amended). In strict mode the candidate is \<^verbatim>\<open>Working\<close> exactly when the
  geolocation probe succeeds (its response is read and decoded, with status
  \<^verbatim>\<open>success\<close>) with a non-empty egress IP, the headers-echo probe also returns a
  response that is read and decoded, and the time elapsed over both probes is under 2
  seconds.
\<close>

theorem testProxy_strict:
  assumes "StrictCheck (Checker c)"
    and "url_Parse w ''http://ip-api.com/json''" and "url_Parse w ''https://httpbin.org/headers''"
  shows "fst (testProxy c w client)
           = ((\<exists>d h. geolocation client = Some d \<and> ipQuery d \<noteq> [] \<and> headers_echo client = Some h)
              \<and> Since client < 2 * Second)"
  using assms
  by (auto simp: testProxy_def geolocation_def headers_echo_def fst_failed Let_def
      split: option.splits)

theorem testProxy_strict_witness:
  "StrictCheck (Checker strict_config)
   \<and> geolocation good_client \<noteq> None \<and> headers_echo good_client \<noteq> None
   \<and> Since good_client < 2 * Second
   \<and> fst (testProxy strict_config example_world good_client)"
proof -
  have s: "StrictCheck (Checker strict_config)" by code_simp
  have u: "url_Parse example_world ''http://ip-api.com/json''"
    "url_Parse example_world ''https://httpbin.org/headers''"
    by code_simp+
  have g: "geolocation good_client = Some \<lparr>ipStatus = ''success'', ipCountry = ''Iceland'',
      ipCountryCode = [], ipRegion = [], ipCity = [], ipQuery = ''2.2.2.2''\<rparr>"
    by code_simp
  have h: "headers_echo good_client = Some [(''Host'', ''httpbin.org'')]" by code_simp
  have t: "Since good_client < 2 * Second" by code_simp
  show ?thesis
    using testProxy_strict [OF s u, of good_client] s g h t by simp
qed

text \<open>
  C1 as it is stated fails: the geolocation probe is not the only one that must succeed.
  With a client whose geolocation probe succeeds with the egress IP 2.2.2.2, whose clock
  reads one second, and whose headers-echo request fails, the candidate is
  \<^verbatim>\<open>Rejected\<close>.
\<close>

theorem testProxy_strict_second_probe:
  "StrictCheck (Checker strict_config)
   \<and> map_option ipQuery (geolocation half_client) = Some ''2.2.2.2''
   \<and> Since half_client < 2 * Second
   \<and> \<not> fst (testProxy strict_config example_world half_client)"
proof -
  have s: "StrictCheck (Checker strict_config)" by code_simp
  have g: "map_option ipQuery (geolocation half_client) = Some ''2.2.2.2''" by code_simp
  have t: "Since half_client < 2 * Second" by code_simp
  have f: "\<not> fst (testProxy strict_config example_world half_client)" by code_simp
  show ?thesis using s g t f by blast
qed


subsection \<open>Runs of CheckProxies\<close>

text \<open>
  A step of a goroutine moves the weight of its action from the pending steps to the
  state: a quantity of the state that every action raises by its weight is conserved
  together with the pending weight, along every schedule.
\<close>

lemma pending_update:
  "i < length gs \<Longrightarrow> gs ! i = a # rest \<Longrightarrow> pending wt (gs[i := rest]) + wt a = pending wt gs"
proof (induction gs arbitrary: i)
  case Nil
  then show ?case by simp
next
  case (Cons g gs)
  show ?case
  proof (cases i)
    case 0
    with Cons.prems show ?thesis by (simp add: pending_def ac_simps)
  next
    case (Suc j)
    with Cons.prems have "pending wt (gs[j := rest]) + wt a = pending wt gs"
      by (intro Cons.IH) simp_all
    then show ?thesis using Suc by (simp add: pending_def add.assoc)
  qed
qed

lemma pending_finished: "list_all (\<lambda>g. g = []) gs \<Longrightarrow> pending wt gs = 0"
  by (induction gs) (simp_all add: pending_def)

lemma step_conserved:
  assumes ex: "\<And>a c. m (exec a c) = m c + wt a"
    and st: "step i (gs, c) = (gs', c')"
  shows "m c' + pending wt gs' = m c + pending wt gs"
proof (cases "i < length gs")
  case False
  with st show ?thesis by simp
next
  case True
  show ?thesis
  proof (cases "gs ! i")
    case Nil
    with True st show ?thesis by simp
  next
    case (Cons a rest)
    with True st have gs': "gs' = gs[i := rest]" and c': "c' = exec a c" by simp_all
    have "m c' + pending wt gs' = m c + (pending wt (gs[i := rest]) + wt a)"
      by (simp add: gs' c' ex ac_simps)
    then show ?thesis by (simp add: pending_update [OF True Cons])
  qed
qed

lemma run_conserved:
  assumes ex: "\<And>a c. m (exec a c) = m c + wt a"
  shows "run sched (gs, c) = (gs', c') \<Longrightarrow> m c' + pending wt gs' = m c + pending wt gs"
proof (induction sched arbitrary: gs c)
  case Nil
  then show ?case by (simp add: run_def)
next
  case (Cons i sched)
  obtain gs1 c1 where s: "step i (gs, c) = (gs1, c1)" by (cases "step i (gs, c)")
  with Cons.prems have "run sched (gs1, c1) = (gs', c')" by (simp add: run_def)
  from Cons.IH [OF this] step_conserved [of m wt, OF ex s] show ?case by simp
qed

lemma step_invariant:
  assumes ex: "\<And>a c. P c \<Longrightarrow> P (exec a c)"
    and st: "step i (gs, c) = (gs', c')" and P: "P c"
  shows "P c'"
  using st P ex by (auto split: if_splits list.splits)

lemma run_invariant:
  assumes ex: "\<And>a c. P c \<Longrightarrow> P (exec a c)"
  shows "run sched (gs, c) = (gs', c') \<Longrightarrow> P c \<Longrightarrow> P c'"
proof (induction sched arbitrary: gs c)
  case Nil
  then show ?case by (simp add: run_def)
next
  case (Cons i sched)
  obtain gs1 c1 where s: "step i (gs, c) = (gs1, c1)" by (cases "step i (gs, c)")
  with Cons.prems have r: "run sched (gs1, c1) = (gs', c')" by (simp add: run_def)
  from step_invariant [of P, OF ex s Cons.prems(2)] have "P c1" .
  from Cons.IH [OF r this] show ?case .
qed

lemma exec_checkedHTTP: "checkedHTTP (exec a c) = checkedHTTP c + progress_of ProxyTypeHTTP a"
  by (cases a) (auto simp: updateProgress_def Let_def split: ProxyType.splits)

lemma exec_checkedSOCKS5: "checkedSOCKS5 (exec a c) = checkedSOCKS5 c + progress_of ProxyTypeSOCKS5 a"
  by (cases a) (auto simp: updateProgress_def Let_def split: ProxyType.splits)

lemma exec_ResultChan: "mset (ResultChan (exec a c)) = mset (ResultChan c) + sent a"
  by (cases a) (auto simp: updateProgress_def Let_def split: ProxyType.splits)

lemma exec_working_le:
  "workingHTTP c \<le> checkedHTTP c \<and> workingSOCKS5 c \<le> checkedSOCKS5 c
   \<Longrightarrow> workingHTTP (exec a c) \<le> checkedHTTP (exec a c)
       \<and> workingSOCKS5 (exec a c) \<le> checkedSOCKS5 (exec a c)"
  by (cases a) (auto simp: updateProgress_def Let_def split: ProxyType.splits)

lemma exec_fixed:
  "totalHTTP (exec a c) = totalHTTP c \<and> totalSOCKS5 (exec a c) = totalSOCKS5 c
   \<and> closed (exec a c) = closed c \<and> config (exec a c) = config c"
  by (cases a) (auto simp: updateProgress_def Let_def split: ProxyType.splits)

lemma pending_append: "pending wt (gs @ hs) = pending wt gs + pending wt hs"
  by (simp add: pending_def)

lemma pending_map: "pending wt (map f xs) = sum_list (map (\<lambda>x. sum_list (map wt (f x))) xs)"
  by (induction xs) (simp_all add: pending_def)

lemma sum_list_const: "sum_list (map (\<lambda>x. (k::nat)) xs) = k * length xs"
  by (induction xs) simp_all

lemma checkHTTPProxy_progress:
  "sum_list (map (progress_of t) (fst (checkHTTPProxy cfg w p))) = (if t = ProxyTypeHTTP then 1 else 0)"
  by (auto simp: checkHTTPProxy_def Let_def split: prod.splits)

lemma checkSOCKS5Proxy_progress:
  "sum_list (map (progress_of t) (fst (checkSOCKS5Proxy cfg w p))) = (if t = ProxyTypeSOCKS5 then 1 else 0)"
  by (auto simp: checkSOCKS5Proxy_def Let_def split: prod.splits)

lemma goroutines_progress:
  "pending (progress_of ProxyTypeHTTP) (goroutines w cfg hs ss) = length hs"
  "pending (progress_of ProxyTypeSOCKS5) (goroutines w cfg hs ss) = length ss"
  by (simp_all add: goroutines_def pending_append pending_map checkHTTPProxy_progress
      checkSOCKS5Proxy_progress sum_list_const)

lemma CheckProxies_Inr:
  assumes "CheckProxies w sched hs ss c = Inr c'"
  obtains gs' c1 where
    "run sched (goroutines w (config c) hs ss,
                c\<lparr>totalHTTP := length hs, totalSOCKS5 := length ss\<rparr>) = (gs', c1)"
    and "list_all (\<lambda>g. g = []) gs'" and "\<not> closed c1" and "c' = c1\<lparr>closed := True\<rparr>"
  using assms by (auto simp: CheckProxies_def Let_def split: prod.splits if_splits)


text \<open>
  C6. When \<^verbatim>\<open>CheckProxies\<close> returns, on a new checker, under any schedule of its
  goroutines: the checked counter of each family equals its total, which is the length of
  its input list, and the working counter of each family is at most its checked counter.
\<close>

theorem CheckProxies_counters:
  assumes "CheckProxies w sched httpProxies socks5Proxies (NewProxyChecker cfg) = Inr c'"
  shows "checkedHTTP c' = totalHTTP c' \<and> totalHTTP c' = length httpProxies
       \<and> checkedSOCKS5 c' = totalSOCKS5 c' \<and> totalSOCKS5 c' = length socks5Proxies
       \<and> workingHTTP c' \<le> checkedHTTP c' \<and> workingSOCKS5 c' \<le> checkedSOCKS5 c'"
proof -
  let ?c0 = "(NewProxyChecker cfg)\<lparr>totalHTTP := length httpProxies,
                                     totalSOCKS5 := length socks5Proxies\<rparr>"
  let ?gs = "goroutines w (config (NewProxyChecker cfg)) httpProxies socks5Proxies"
  from assms obtain gs' c1 where r: "run sched (?gs, ?c0) = (gs', c1)"
    and fin: "list_all (\<lambda>g. g = []) gs'" and c': "c' = c1\<lparr>closed := True\<rparr>"
    by (rule CheckProxies_Inr)
  have h: "checkedHTTP c1 = length httpProxies"
    using run_conserved [of checkedHTTP "progress_of ProxyTypeHTTP", OF exec_checkedHTTP r]
    by (simp add: pending_finished [OF fin] goroutines_progress NewProxyChecker_def)
  have s: "checkedSOCKS5 c1 = length socks5Proxies"
    using run_conserved [of checkedSOCKS5 "progress_of ProxyTypeSOCKS5", OF exec_checkedSOCKS5 r]
    by (simp add: pending_finished [OF fin] goroutines_progress NewProxyChecker_def)
  have t: "totalHTTP c1 = length httpProxies \<and> totalSOCKS5 c1 = length socks5Proxies"
    using run_invariant [of "\<lambda>c. totalHTTP c = length httpProxies \<and> totalSOCKS5 c = length socks5Proxies", OF _ r]
    by (simp add: exec_fixed)
  have le: "workingHTTP c1 \<le> checkedHTTP c1 \<and> workingSOCKS5 c1 \<le> checkedSOCKS5 c1"
    using run_invariant [of "\<lambda>c. workingHTTP c \<le> checkedHTTP c \<and> workingSOCKS5 c \<le> checkedSOCKS5 c", OF exec_working_le r]
    by (simp add: NewProxyChecker_def)
  show ?thesis using h s t le by (simp add: c')
qed

theorem CheckProxies_counters_witness:
  "map_sum id (\<lambda>c. (checkedHTTP c, totalHTTP c, workingHTTP c,
                      checkedSOCKS5 c, totalSOCKS5 c, workingSOCKS5 c)) example_run
   = Inr (2, 2, 1, 1, 1, 0)"
proof -
  have e: "map_sum id (\<lambda>c. (workingHTTP c, workingSOCKS5 c)) example_run = Inr (1, 0)"
    by code_simp
  show ?thesis
  proof (cases example_run)
    case (Inl a)
    from e [unfolded Inl] show ?thesis by simp
  next
    case (Inr c')
    from e [unfolded Inr] have w: "workingHTTP c' = 1" "workingSOCKS5 c' = 0" by simp_all
    from CheckProxies_counters [OF Inr [unfolded example_run_def]] w show ?thesis
      unfolding Inr by simp
  qed
qed

lemma checkHTTPProxy_sent:
  "sum_list (map sent (fst (checkHTTPProxy cfg w p)))
     = (if url_Parse w (''http://'' @ p) then {#snd (checkHTTPProxy cfg w p)#} else {#})"
  by (auto simp: checkHTTPProxy_def Let_def split: prod.splits)

lemma checkSOCKS5Proxy_sent:
  "sum_list (map sent (fst (checkSOCKS5Proxy cfg w p)))
     = (if proxy_SOCKS5 w p then {#snd (checkSOCKS5Proxy cfg w p)#} else {#})"
  by (auto simp: checkSOCKS5Proxy_def Let_def split: prod.splits)

lemma sum_list_filter_mset:
  "sum_list (map (\<lambda>x. if P x then {#f x#} else {#}) xs) = mset (map f (filter P xs))"
  by (induction xs) simp_all

lemma goroutines_sent: "pending sent (goroutines w cfg hs ss) = published w cfg hs ss"
  by (simp add: goroutines_def pending_append pending_map checkHTTPProxy_sent
      checkSOCKS5Proxy_sent sum_list_filter_mset published_def)

lemma CheckProxies_published:
  assumes "CheckProxies w sched httpProxies socks5Proxies (NewProxyChecker cfg) = Inr c'"
  shows "mset (ResultChan c') = published w cfg httpProxies socks5Proxies"
proof -
  let ?c0 = "(NewProxyChecker cfg)\<lparr>totalHTTP := length httpProxies,
                                     totalSOCKS5 := length socks5Proxies\<rparr>"
  let ?gs = "goroutines w (config (NewProxyChecker cfg)) httpProxies socks5Proxies"
  from assms obtain gs' c1 where r: "run sched (?gs, ?c0) = (gs', c1)"
    and fin: "list_all (\<lambda>g. g = []) gs'" and c': "c' = c1\<lparr>closed := True\<rparr>"
    by (rule CheckProxies_Inr)
  have "mset (ResultChan c1) = published w cfg httpProxies socks5Proxies"
    using run_conserved [of "\<lambda>c. mset (ResultChan c)" sent, OF exec_ResultChan r]
    by (simp add: pending_finished [OF fin] goroutines_sent NewProxyChecker_def)
  then show ?thesis by (simp add: c')
qed

text \<open>A candidate whose proxy URL does not parse is counted, and nothing is published for it.\<close>

lemma CheckProxies_malformed_unpublished:
  assumes "CheckProxies w sched httpProxies socks5Proxies (NewProxyChecker cfg) = Inr c'"
    and "\<not> url_Parse w (''http://'' @ p)"
  shows "filter (\<lambda>r. Proxy r = p \<and> Type r = ProxyTypeHTTP) (ResultChan c') = []"
proof -
  have "\<forall>r \<in># published w cfg httpProxies socks5Proxies. \<not> (Proxy r = p \<and> Type r = ProxyTypeHTTP)"
    using assms(2)
    by (auto simp: published_def checkHTTPProxy_def checkSOCKS5Proxy_def Let_def split: prod.splits)
  then have "\<forall>r \<in> set (ResultChan c'). \<not> (Proxy r = p \<and> Type r = ProxyTypeHTTP)"
    unfolding CheckProxies_published [OF assms(1), symmetric] by simp
  then show ?thesis by (simp add: filter_empty_conv)
qed

text \<open>
  C2. The claim that every candidate has exactly one result published fails on the code
  for a candidate whose transport cannot be built: \<^verbatim>\<open>checkHTTPProxy\<close> and
  \<^verbatim>\<open>checkSOCKS5Proxy\<close> return early, after \<^verbatim>\<open>updateProgress\<close> and without the
  send. The candidate here is the header line that a strict run with detailed output
  writes to \<^verbatim>\<open>out/http.txt\<close>, which the next run reads back as an existing proxy: it
  is counted as checked, and the channel stays empty.
\<close>

theorem CheckProxies_construction_error:
  "map_sum id (\<lambda>c. (ResultChan c, checkedHTTP c, totalHTTP c, workingHTTP c, closed c))
     (CheckProxies example_world [0] [''Proxy|IP|Location|Response Time|Anonymous''] []
        (NewProxyChecker basic_config))
   = Inr ([], 1, 1, 0, True)"
  by code_simp

subsection \<open>CheckProxies returns\<close>

lemma run_append: "run (xs @ ys) st = run ys (run xs st)"
  by (simp add: run_def)

lemma run_replicate:
  "i < length gs \<Longrightarrow> gs ! i = g \<Longrightarrow> fst (run (replicate (length g) i) (gs, c)) = gs[i := []]"
proof (induction g arbitrary: gs c)
  case Nil
  then show ?case by (simp add: run_def) (metis list_update_id)
next
  case (Cons a g)
  have "run (replicate (length (a # g)) i) (gs, c)
          = run (replicate (length g) i) (gs[i := g], exec a c)"
    using Cons.prems by (simp add: run_def)
  moreover have "fst (run (replicate (length g) i) (gs[i := g], exec a c)) = (gs[i := g])[i := []]"
    using Cons.prems by (intro Cons.IH) simp_all
  ultimately show ?case by simp
qed

lemma run_sequential_prefix:
  "k \<le> length gs \<Longrightarrow>
   fst (run (concat (map (\<lambda>i. replicate (length (gs ! i)) i) [0 ..< k])) (gs, c))
     = replicate k [] @ drop k gs"
proof (induction k)
  case 0
  show ?case by (simp add: run_def)
next
  case (Suc k)
  let ?pre = "concat (map (\<lambda>i. replicate (length (gs ! i)) i) [0 ..< k])"
  obtain gs1 c1 where r: "run ?pre (gs, c) = (gs1, c1)" by (cases "run ?pre (gs, c)")
  from Suc have gs1: "gs1 = replicate k [] @ drop k gs" using r by simp
  have k: "k < length gs1" using Suc.prems by (simp add: gs1)
  have nth: "gs1 ! k = gs ! k" using Suc.prems by (simp add: gs1 nth_append)
  have "fst (run (replicate (length (gs ! k)) k) (gs1, c1)) = gs1[k := []]"
    using k nth by (rule run_replicate)
  also have "\<dots> = replicate (Suc k) [] @ drop (Suc k) gs"
  proof -
    have d: "drop k gs = gs ! k # drop (Suc k) gs"
      using Suc.prems by (simp add: Cons_nth_drop_Suc)
    have "gs1[k := []] = replicate k [] @ ([] # drop (Suc k) gs)"
      by (simp add: gs1 d list_update_append)
    also have "\<dots> = (replicate k [] @ [[]]) @ drop (Suc k) gs" by simp
    also have "replicate k [] @ [[]] = replicate (Suc k) ([] :: action list)"
      by (simp add: replicate_append_same)
    finally show ?thesis .
  qed
  finally show ?case by (simp add: run_append r)
qed

lemma run_sequential: "list_all (\<lambda>g. g = []) (fst (run (sequential gs) (gs, c)))"
  using run_sequential_prefix [of "length gs" gs c] by (simp add: sequential_def list_all_iff)

lemma run_closed: "run sched (gs, c) = (gs', c') \<Longrightarrow> closed c' = closed c"
  using run_invariant [of "\<lambda>x. closed x = closed c" sched gs c gs' c'] by (simp add: exec_fixed)

lemma CheckProxies_returns:
  "\<exists>c'. CheckProxies w (sequential (goroutines w cfg httpProxies socks5Proxies))
          httpProxies socks5Proxies (NewProxyChecker cfg) = Inr c'"
proof -
  let ?gs = "goroutines w cfg httpProxies socks5Proxies"
  let ?c0 = "(NewProxyChecker cfg)\<lparr>totalHTTP := length httpProxies,
                                     totalSOCKS5 := length socks5Proxies\<rparr>"
  obtain gs' c1 where r: "run (sequential ?gs) (?gs, ?c0) = (gs', c1)"
    by (cases "run (sequential ?gs) (?gs, ?c0)")
  have fin: "list_all (\<lambda>g. g = []) gs'" using run_sequential [of ?gs ?c0] r by simp
  have "\<not> closed c1" using run_closed [OF r] by (simp add: NewProxyChecker_def)
  then show ?thesis using r fin by (simp add: CheckProxies_def NewProxyChecker_def)
qed



end
